theory Spec2Isabelle
  imports Main "HOL-Library.Word"
begin

unbundle bit_operations_syntax

section \<open>Strings and the regular-expression fragment used by the delegate engine\<close>

text \<open>
  A Go string is a sequence of bytes, and so is an Isabelle \<^typ>\<open>string\<close>.
  The functions of this section are the library calls that \<open>delegate.go\<close> makes on
  strings: \<open>strings.Replace(s, " ", "", -1)\<close>, \<open>strings.Split(s, ",")\<close>,
  \<open>regexp.QuoteMeta\<close>, the replacement of every escaped star by \<open>.*\<close>, and
  \<open>regexp.MatchString\<close> on the patterns built that way.
\<close>

definition backslash :: char where
  "backslash = CHR 0x5C"

definition newline :: char where
  "newline = CHR 0x0A"

definition removeSpaces :: "string \<Rightarrow> string" where
  \<comment> \<open>\<open>strings.Replace(s, " ", "", -1)\<close>\<close>
  "removeSpaces s = filter (\<lambda>c. c \<noteq> CHR '' '') s"

fun splitFields :: "string \<Rightarrow> char \<Rightarrow> string \<times> string list" where
  \<comment> \<open>the first field and the fields after it\<close>
  "splitFields [] sep = ([], [])"
| "splitFields (c # cs) sep =
     (case splitFields cs sep of
        (w, ws) \<Rightarrow> if c = sep then ([], w # ws) else (c # w, ws))"

definition Split :: "string \<Rightarrow> char \<Rightarrow> string list" where
  \<comment> \<open>\<open>strings.Split(s, sep)\<close> for a one-byte separator; \<open>Split "" sep\<close> is \<open>[""]\<close>\<close>
  "Split s sep = (case splitFields s sep of (w, ws) \<Rightarrow> w # ws)"

definition special :: "char \<Rightarrow> bool" where
  \<comment> \<open>the bytes that \<open>regexp.QuoteMeta\<close> escapes\<close>
  "special c = (c \<in> set (backslash # ''.+*?()|[]{}^$''))"

fun QuoteMeta :: "string \<Rightarrow> string" where
  "QuoteMeta [] = []"
| "QuoteMeta (c # cs) =
     (if special c then backslash # c # QuoteMeta cs else c # QuoteMeta cs)"

fun ReplaceEscapedStar :: "string \<Rightarrow> string" where
  \<comment> \<open>\<open>strings.ReplaceAll(s, `\*`, ".*")\<close>, and equally
      \<open>regexp.MustCompile(`\\\*`).ReplaceAllString(s, ".*")\<close>: left to right, not overlapping\<close>
  "ReplaceEscapedStar (a # b # cs) =
     (if a = backslash \<and> b = CHR ''*'' then ''.*'' @ ReplaceEscapedStar cs
      else a # ReplaceEscapedStar (b # cs))"
| "ReplaceEscapedStar cs = cs"

type_synonym byteRange = "nat \<times> nat"

definition inRange :: "byteRange \<Rightarrow> char \<Rightarrow> bool" where
  "inRange r c = (fst r \<le> (of_char c :: nat) \<and> (of_char c :: nat) \<le> snd r)"

definition contRange :: byteRange where
  \<comment> \<open>a UTF-8 continuation byte\<close>
  "contRange = (0x80, 0xBF)"

definition leadByte :: "char \<Rightarrow> byteRange list option" where
  \<comment> \<open>the ranges of the bytes that must follow a first byte (the \<open>first\<close> and
      \<open>acceptRanges\<close> tables of \<open>unicode/utf8\<close>): no overlong forms, no surrogates,
      nothing above U+10FFFF; \<open>None\<close> for a byte that cannot start a rune\<close>
  "leadByte c =
     (let n = (of_char c :: nat) in
      if n < 0x80 then Some []
      else if 0xC2 \<le> n \<and> n \<le> 0xDF then Some [contRange]
      else if n = 0xE0 then Some [(0xA0, 0xBF), contRange]
      else if 0xE1 \<le> n \<and> n \<le> 0xEC then Some [contRange, contRange]
      else if n = 0xED then Some [(0x80, 0x9F), contRange]
      else if 0xEE \<le> n \<and> n \<le> 0xEF then Some [contRange, contRange]
      else if n = 0xF0 then Some [(0x90, 0xBF), contRange, contRange]
      else if 0xF1 \<le> n \<and> n \<le> 0xF3 then Some [contRange, contRange, contRange]
      else if n = 0xF4 then Some [(0x80, 0x8F), contRange, contRange]
      else None)"

fun validFrom :: "byteRange list \<Rightarrow> string \<Rightarrow> bool" where
  \<comment> \<open>the first argument lists the ranges of the bytes still owed to the current rune\<close>
  "validFrom [] [] = True"
| "validFrom (r # rs) [] = False"
| "validFrom [] (c # cs) =
     (case leadByte c of None \<Rightarrow> False | Some rs \<Rightarrow> validFrom rs cs)"
| "validFrom (r # rs) (c # cs) = (inRange r c \<and> validFrom rs cs)"

definition validUTF8 :: "string \<Rightarrow> bool" where
  \<comment> \<open>\<open>utf8.ValidString\<close>\<close>
  "validUTF8 s = validFrom [] s"

text \<open>
  The patterns handed to \<open>regexp.MatchString\<close> are made of \<open>^\<close>, \<open>$\<close>, literal bytes,
  escaped punctuation and \<open>.*\<close>. \<open>parseRegexp\<close> reads exactly that fragment (any other
  operator is \<open>None\<close>, and never arises from a quoted pattern); \<open>.\<close> matches every
  byte but a newline, as Go's \<open>.\<close> does without the \<open>s\<close> flag. The text is matched
  byte by byte, which for UTF-8 text is Go's match rune by rune. On a text that is not
  valid UTF-8 the two can differ: Go's matcher steps over a byte that begins no encoding
  as the rune U+FFFD, which a literal U+FFFD of the pattern can match, and the match byte
  by byte refuses it.
\<close>

datatype rtoken = BeginText | EndText | Lit char | AnyChar | AnyStar

fun parseRegexp :: "string \<Rightarrow> rtoken list option" where
  "parseRegexp [] = Some []"
| "parseRegexp [c] =
     (if c = CHR ''^'' then Some [BeginText]
      else if c = CHR ''$'' then Some [EndText]
      else if c = CHR ''.'' then Some [AnyChar]
      else if special c then None
      else Some [Lit c])"
| "parseRegexp (c # d # cs) =
     (if c = CHR ''^'' then map_option (Cons BeginText) (parseRegexp (d # cs))
      else if c = CHR ''$'' then map_option (Cons EndText) (parseRegexp (d # cs))
      else if c = backslash then
        (if special d then map_option (Cons (Lit d)) (parseRegexp cs) else None)
      else if c = CHR ''.'' then
        (if d = CHR ''*'' then map_option (Cons AnyStar) (parseRegexp cs)
         else map_option (Cons AnyChar) (parseRegexp (d # cs)))
      else if special c then None
      else map_option (Cons (Lit c)) (parseRegexp (d # cs)))"

fun matchHere :: "rtoken list \<Rightarrow> bool \<Rightarrow> string \<Rightarrow> bool" where
  \<comment> \<open>do the tokens match a prefix of the text that is left; the flag says whether the
      position is the beginning of the text\<close>
  "matchHere [] atStart t = True"
| "matchHere (BeginText # ts) atStart t = (atStart \<and> matchHere ts atStart t)"
| "matchHere (EndText # ts) atStart t = (t = [] \<and> matchHere ts atStart t)"
| "matchHere (Lit c # ts) atStart [] = False"
| "matchHere (Lit c # ts) atStart (d # t) = (c = d \<and> matchHere ts False t)"
| "matchHere (AnyChar # ts) atStart [] = False"
| "matchHere (AnyChar # ts) atStart (d # t) = (d \<noteq> newline \<and> matchHere ts False t)"
| "matchHere (AnyStar # ts) atStart [] = matchHere ts atStart []"
| "matchHere (AnyStar # ts) atStart (d # t) =
     (matchHere ts atStart (d # t) \<or> (d \<noteq> newline \<and> matchHere (AnyStar # ts) False t))"

fun matchAnywhere :: "rtoken list \<Rightarrow> bool \<Rightarrow> string \<Rightarrow> bool" where
  "matchAnywhere ts atStart [] = matchHere ts atStart []"
| "matchAnywhere ts atStart (d # t) =
     (matchHere ts atStart (d # t) \<or> matchAnywhere ts False t)"

datatype regexpError = ErrInvalidUTF8 | ErrSyntax

definition MatchString :: "string \<Rightarrow> string \<Rightarrow> regexpError + bool" where
  \<comment> \<open>\<open>regexp.MatchString(pattern, s)\<close>: the pattern is compiled first, and a pattern
      that is not valid UTF-8 does not compile\<close>
  "MatchString pattern s =
     (if \<not> validUTF8 pattern then Inl ErrInvalidUTF8
      else case parseRegexp pattern of
             None \<Rightarrow> Inl ErrSyntax
           | Some ts \<Rightarrow> Inr (matchAnywhere ts True s))"

section \<open>Identifier matching (delegate.go)\<close>

definition regexPattern :: "string \<Rightarrow> string" where
  \<comment> \<open>\<open>"^" + regexp.QuoteMeta(p) + "$"\<close> with every \<open>\*\<close> replaced by \<open>.*\<close>\<close>
  "regexPattern p = ReplaceEscapedStar (''^'' @ QuoteMeta p @ ''$'')"

fun anyParentMatches :: "string \<Rightarrow> string list \<Rightarrow> regexpError + bool" where
  \<comment> \<open>the inner loop of \<open>IsPermittedIdentifierRule\<close>: the value of \<open>permitted\<close> when the
      loop ends, or the error of \<open>regexp.MatchString\<close>\<close>
  "anyParentMatches c [] = Inr False"
| "anyParentMatches c (p # ps) =
     (case MatchString (regexPattern p) c of
        Inl e \<Rightarrow> Inl e
      | Inr matched \<Rightarrow> if matched then Inr True else anyParentMatches c ps)"

fun allChildrenPermitted :: "string list \<Rightarrow> string list \<Rightarrow> bool" where
  \<comment> \<open>the outer loop of \<open>IsPermittedIdentifierRule\<close>\<close>
  "allChildrenPermitted [] ps = True"
| "allChildrenPermitted (c # cs) ps =
     (case anyParentMatches c ps of
        Inl e \<Rightarrow> False
      | Inr permitted \<Rightarrow> if \<not> permitted then False else allChildrenPermitted cs ps)"

definition IsPermittedIdentifierRule :: "string \<Rightarrow> string \<Rightarrow> bool" where
  "IsPermittedIdentifierRule child parent =
     (let parent' = removeSpaces parent;
          child' = removeSpaces child;
          childIdentifiers = Split child' (CHR '','');
          parentIdentifiers = Split parent' (CHR '','')
      in allChildrenPermitted childIdentifiers parentIdentifiers)"

fun matchesAnyName :: "string \<Rightarrow> string list \<Rightarrow> bool" where
  \<comment> \<open>the loop of \<open>IsPermittedIdentifier\<close>\<close>
  "matchesAnyName name [] = False"
| "matchesAnyName name (domain # names) =
     (case MatchString (regexPattern domain) name of
        Inl e \<Rightarrow> False
      | Inr matched \<Rightarrow> if matched then True else matchesAnyName name names)"

definition IsPermittedIdentifier :: "string \<Rightarrow> string \<Rightarrow> bool" where
  "IsPermittedIdentifier name permittedNames =
     (let name' = removeSpaces name;
          names = Split (removeSpaces permittedNames) (CHR '','')
      in matchesAnyName name' names)"

section \<open>Delegate certificates and chain verification (delegate.go)\<close>

text \<open>
  An \<open>asn1.ObjectIdentifier\<close> is a slice of integers, compared by \<open>Equal\<close>. A certificate
  keeps the fields of \<open>x509.Certificate\<close> that the delegate engine reads: the common names
  of subject and issuer, the key, the key usage bits, the basic constraints and the lists
  of extensions. \<open>SignedBy\<close> names the key that made the signature.
\<close>

type_synonym ObjectIdentifier = "int list"

definition OID_delegateBase :: ObjectIdentifier where
  "OID_delegateBase = [1,3,6,1,4,1,45724,3]"

definition OID_delegateOnboard :: ObjectIdentifier where
  "OID_delegateOnboard = [1,3,6,1,4,1,45724,3,1,1]"

definition OID_delegateRedirect :: ObjectIdentifier where
  "OID_delegateRedirect = [1,3,6,1,4,1,45724,3,1,2]"

definition OID_delegateUpload :: ObjectIdentifier where
  "OID_delegateUpload = [1,3,6,1,4,1,45724,3,1,3]"

definition OID_delegateClaim :: ObjectIdentifier where
  "OID_delegateClaim = [1,3,6,1,4,1,45724,3,1,4]"

definition OID_delegateProvision :: ObjectIdentifier where
  "OID_delegateProvision = [1,3,6,1,4,1,45724,3,1,5]"

definition OID_delegateExtend :: ObjectIdentifier where
  "OID_delegateExtend = [1,3,6,1,4,1,45724,3,1,6]"

definition OID_Identifier :: ObjectIdentifier where
  "OID_Identifier = [1,3,6,1,4,1,45724,3,2]"

definition OID_IdentifierConstraints :: ObjectIdentifier where
  "OID_IdentifierConstraints = [1,3,6,1,4,1,45724,3,3]"

record Extension =
  Id_ext :: ObjectIdentifier
  Critical :: bool
  Value :: string

datatype PublicKey =
    NoKey
  | ECDSA_PublicKey nat
  | RSA_PublicKey nat
  | Other_PublicKey nat

datatype Signer = PrivateKey PublicKey

fun Public :: "Signer \<Rightarrow> PublicKey" where
  "Public (PrivateKey k) = k"

record Certificate =
  Subject :: string
  Issuer :: string
  PublicKey :: PublicKey
  SignedBy :: PublicKey
  KeyUsage :: "64 word"
  BasicConstraintsValid :: bool
  IsCA :: bool
  Extensions :: "Extension list"
  ExtraExtensions :: "Extension list"

definition KeyUsageDigitalSignature :: "64 word" where
  "KeyUsageDigitalSignature = 1"

definition KeyUsageCertSign :: "64 word" where
  "KeyUsageCertSign = 32"

definition DelegateFlagLeaf :: "8 word" where
  "DelegateFlagLeaf = 0"

definition DelegateFlagIntermediate :: "8 word" where
  "DelegateFlagIntermediate = 1"

definition DelegateFlagRoot :: "8 word" where
  "DelegateFlagRoot = 2"

text \<open>
  What the standard library decides, and the code cannot: whether a signature verifies,
  the fresh key of the ephemeral root, whether \<open>x509.CreateCertificate\<close> and
  \<open>x509.ParseCertificate\<close> succeed, and the extensions the library writes itself (key usage,
  basic constraints, key identifiers) before the template's \<open>ExtraExtensions\<close>.
\<close>

record X509Env =
  CheckSignatureFrom :: "Certificate \<Rightarrow> Certificate \<Rightarrow> bool"
  GenerateKeyECDSA :: "Signer option"
  GenerateKeyRSA :: "Signer option"
  CreateCertificateFails :: "Certificate \<Rightarrow> PublicKey \<Rightarrow> Signer \<Rightarrow> bool"
  LibraryExtensions :: "Certificate \<Rightarrow> Extension list"

datatype DelegateError =
    ErrEmptyChain
  | ErrCannotVerifyEmptyChain
  | ErrUnknownKeyType
  | ErrEphemeralKey
  | ErrEphemeralCert DelegateError
  | ErrGetIdentifier DelegateError
  | ErrNotAllowedByPrior nat
  | ErrNoNamedIdentifier nat
  | ErrNotSignedBy nat
  | ErrIssuerMismatch nat
  | ErrNoPermission nat
  | ErrNoDigitalSignature nat
  | ErrBasicConstraints nat
  | ErrNotCA nat
  | ErrNoCertSign nat
  | ErrRootScope
  | ErrCreateCertificate
  | ErrVerify
  | PanicNilCertificate

fun certMissingOID :: "Certificate \<Rightarrow> ObjectIdentifier \<Rightarrow> bool" where
  "certMissingOID c oid = (\<not> list_ex (\<lambda>e. Id_ext e = oid) (Extensions c))"

fun firstValue :: "ObjectIdentifier \<Rightarrow> Extension list \<Rightarrow> string option" where
  \<comment> \<open>the loop \<open>for _, x := range exts { if x.Id.Equal(oid) { return ... } }\<close>\<close>
  "firstValue oid [] = None"
| "firstValue oid (x # xs) = (if Id_ext x = oid then Some (Value x) else firstValue oid xs)"

definition GetCertIdentifierStr :: "Certificate \<Rightarrow> string" where
  "GetCertIdentifierStr cert =
     (case firstValue OID_Identifier (Extensions cert) of
        Some v \<Rightarrow> removeSpaces v
      | None \<Rightarrow> [])"

definition GetIdentifier :: "Certificate list \<Rightarrow> DelegateError + string" where
  "GetIdentifier chain =
     (case chain of
        [] \<Rightarrow> Inl ErrCannotVerifyEmptyChain
      | c # _ \<Rightarrow> Inr (GetCertIdentifierStr c))"

definition getIdentConstraints :: "Certificate \<Rightarrow> string" where
  "getIdentConstraints cert =
     (case firstValue OID_IdentifierConstraints (Extensions cert) of
        Some v \<Rightarrow> removeSpaces v
      | None \<Rightarrow> [])"

fun lastValue :: "ObjectIdentifier \<Rightarrow> string \<Rightarrow> Extension list \<Rightarrow> string" where
  \<comment> \<open>the loop that computes \<open>rootIdent\<close>: every matching extension overwrites it\<close>
  "lastValue oid acc [] = acc"
| "lastValue oid acc (x # xs) =
     lastValue oid (if Id_ext x = oid then Value x else acc) xs"

definition CreateAndParse ::
  "X509Env \<Rightarrow> Certificate \<Rightarrow> Certificate \<Rightarrow> PublicKey \<Rightarrow> Signer \<Rightarrow> Certificate option" where
  \<comment> \<open>\<open>x509.CreateCertificate(rand.Reader, template, parent, pub, priv)\<close> followed by
      \<open>x509.ParseCertificate\<close>: the parsed certificate carries the library's own extensions
      and then the template's \<open>ExtraExtensions\<close>\<close>
  "CreateAndParse env template parent pub priv =
     (if CreateCertificateFails env template pub priv then None
      else Some (template\<lparr>
        Issuer := Subject parent,
        PublicKey := pub,
        SignedBy := Public priv,
        Extensions := LibraryExtensions env template @ ExtraExtensions template,
        ExtraExtensions := []\<rparr>))"

definition permissionExtensions :: "ObjectIdentifier list \<Rightarrow> Extension list" where
  "permissionExtensions permissions =
     map (\<lambda>p. \<lparr>Id_ext = p, Critical = True, Value = []\<rparr>) permissions"

definition GenerateDelegate ::
  "X509Env \<Rightarrow> Signer \<Rightarrow> 8 word \<Rightarrow> PublicKey \<Rightarrow> string \<Rightarrow> string \<Rightarrow>
   ObjectIdentifier list \<Rightarrow> string \<Rightarrow> DelegateError + Certificate" where
  \<comment> \<open>the parameter \<open>sigAlg\<close> of the source is never read and is left out\<close>
  "GenerateDelegate env key flags delegateKey subject issuer permissions ident =
     (let parent = \<lparr>Subject = issuer, Issuer = [], PublicKey = NoKey, SignedBy = NoKey,
            KeyUsage = KeyUsageCertSign OR KeyUsageDigitalSignature,
            BasicConstraintsValid = True, IsCA = True,
            Extensions = [], ExtraExtensions = []\<rparr>;
          template = \<lparr>Subject = subject, Issuer = [], PublicKey = NoKey, SignedBy = NoKey,
            KeyUsage = KeyUsageDigitalSignature,
            BasicConstraintsValid = True, IsCA = False,
            Extensions = [], ExtraExtensions = []\<rparr>;
          template =
            (if flags AND (DelegateFlagIntermediate OR DelegateFlagRoot) \<noteq> 0 then
               template\<lparr>
                 KeyUsage := KeyUsage template OR KeyUsageCertSign,
                 IsCA := True,
                 ExtraExtensions :=
                   (if ident \<noteq> [] then
                      [\<lparr>Id_ext = OID_IdentifierConstraints, Critical = True, Value = ident\<rparr>]
                    else [])\<rparr>
             else
               template\<lparr>
                 ExtraExtensions :=
                   (if ident \<noteq> [] then
                      [\<lparr>Id_ext = OID_Identifier, Critical = True, Value = ident\<rparr>]
                    else [])\<rparr>);
          template = template\<lparr>
            ExtraExtensions := ExtraExtensions template @ permissionExtensions permissions\<rparr>
      in case CreateAndParse env template parent delegateKey key of
           None \<Rightarrow> Inl ErrCreateCertificate
         | Some cert \<Rightarrow>
             (case CreateAndParse env parent parent (Public key) key of
                None \<Rightarrow> Inl PanicNilCertificate
              | Some certParent \<Rightarrow>
                  if \<not> CheckSignatureFrom env cert certParent then Inl ErrVerify
                  else Inr cert))"

definition appendOwnerRoot ::
  "X509Env \<Rightarrow> Certificate list \<Rightarrow> PublicKey option \<Rightarrow> ObjectIdentifier list \<Rightarrow>
   DelegateError + Certificate list" where
  \<comment> \<open>the block \<open>if (ownerKey != nil) { ... chain = append(chain, rootOwner) }\<close>; the chain
      is not empty here\<close>
  "appendOwnerRoot env chain ownerKey oidArray =
     (case ownerKey of
        None \<Rightarrow> Inr chain
      | Some public \<Rightarrow>
          (let issuer = Issuer (last chain);
               generated =
                 (case public of
                    ECDSA_PublicKey _ \<Rightarrow> Inr (GenerateKeyECDSA env)
                  | RSA_PublicKey _ \<Rightarrow> Inr (GenerateKeyRSA env)
                  | _ \<Rightarrow> Inl ErrUnknownKeyType)
           in case generated of
                Inl e \<Rightarrow> Inl e
              | Inr None \<Rightarrow> Inl ErrEphemeralKey
              | Inr (Some rootPriv) \<Rightarrow>
                  (case GenerateDelegate env rootPriv DelegateFlagRoot public issuer issuer
                          oidArray (getIdentConstraints (last chain)) of
                     Inl e \<Rightarrow> Inl (ErrEphemeralCert e)
                   | Inr rootOwner \<Rightarrow> Inr (chain @ [rootOwner]))))"

fun walkChain ::
  "X509Env \<Rightarrow> Certificate list \<Rightarrow> ObjectIdentifier option \<Rightarrow> nat \<Rightarrow> string \<Rightarrow>
   Certificate list \<Rightarrow> DelegateError option" where
  \<comment> \<open>the loop \<open>for i, c := range chain\<close>: \<open>i\<close> is the index, \<open>prevOwner\<close> the loop's
      variable, and the last argument is \<open>chain[i:]\<close>; printing is not modelled\<close>
  "walkChain env chain oid i prevOwner [] = None"
| "walkChain env chain oid i prevOwner (c # rest) =
     (case (if i = 0 then
              (case GetIdentifier chain of
                 Inl e \<Rightarrow> Inl (ErrGetIdentifier e)
               | Inr s \<Rightarrow> Inr s)
            else Inr (getIdentConstraints c)) of
        Inl e \<Rightarrow> Some e
      | Inr constrs \<Rightarrow>
          if constrs \<noteq> [] \<and> prevOwner \<noteq> [] \<and> \<not> IsPermittedIdentifierRule prevOwner constrs
          then Some (ErrNotAllowedByPrior i)
          else
            (let nextStr = (if constrs \<noteq> [] then constrs else []) in
             if i \<noteq> 0 \<and> prevOwner = [] \<and> nextStr \<noteq> [] then Some (ErrNoNamedIdentifier i)
             else if rest \<noteq> [] \<and> \<not> CheckSignatureFrom env c (hd rest)
               then Some (ErrNotSignedBy i)
             else if rest \<noteq> [] \<and> Issuer c \<noteq> Subject (hd rest)
               then Some (ErrIssuerMismatch i)
             else if (case oid of None \<Rightarrow> False | Some f \<Rightarrow> certMissingOID c f)
               then Some (ErrNoPermission i)
             else if KeyUsage c AND KeyUsageDigitalSignature = 0
               then Some (ErrNoDigitalSignature i)
             else if \<not> BasicConstraintsValid c then Some (ErrBasicConstraints i)
             else if i \<noteq> 0 \<and> \<not> IsCA c then Some (ErrNotCA i)
             else if i \<noteq> 0 \<and> KeyUsage c AND KeyUsageCertSign = 0 then Some (ErrNoCertSign i)
             else walkChain env chain oid (Suc i) nextStr rest))"

definition processDelegateChain ::
  "X509Env \<Rightarrow> Certificate list \<Rightarrow> PublicKey option \<Rightarrow> ObjectIdentifier option \<Rightarrow> bool \<Rightarrow>
   string option \<Rightarrow> DelegateError option" where
  \<comment> \<open>\<open>None\<close> is the \<open>nil\<close> error; \<open>output\<close> only switches printing on\<close>
  "processDelegateChain env chain ownerKey oid output namedOwner =
     (let oidArray = (case oid of None \<Rightarrow> [] | Some f \<Rightarrow> [f]) in
      if length chain = 0 then Some ErrEmptyChain
      else case appendOwnerRoot env chain ownerKey oidArray of
        Inl e \<Rightarrow> Some e
      | Inr chain' \<Rightarrow>
          (case walkChain env chain' oid 0 [] chain' of
             Some e \<Rightarrow> Some e
           | None \<Rightarrow>
               (let rootIdent = lastValue OID_IdentifierConstraints [] (Extensions (last chain')) in
                case namedOwner of
                  None \<Rightarrow> None
                | Some name \<Rightarrow>
                    if rootIdent \<noteq> [] \<and> \<not> IsPermittedIdentifierRule rootIdent name
                    then Some ErrRootScope
                    else None)))"

definition VerifyDelegateChain ::
  "X509Env \<Rightarrow> Certificate list \<Rightarrow> PublicKey option \<Rightarrow> ObjectIdentifier option \<Rightarrow>
   string option \<Rightarrow> DelegateError option" where
  "VerifyDelegateChain env chain ownerKey oid namedOwner =
     processDelegateChain env chain ownerKey oid False namedOwner"

subsection \<open>The fixtures of \<open>TestDelegateIdentChains\<close>\<close>

text \<open>
  A library in which a signature verifies exactly when it was made with the parent's key,
  key generation and certificate creation succeed, and every created certificate carries
  the key-usage and basic-constraints extensions; and the three certificates the test
  issues with \<open>GenerateDelegate\<close> for the permission \<open>onboard\<close>.
\<close>

definition testEnv :: X509Env where
  "testEnv = \<lparr>
     CheckSignatureFrom = (\<lambda>c parent. SignedBy c = PublicKey parent),
     GenerateKeyECDSA = Some (PrivateKey (ECDSA_PublicKey 100)),
     GenerateKeyRSA = Some (PrivateKey (RSA_PublicKey 101)),
     CreateCertificateFails = (\<lambda>template pub priv. False),
     LibraryExtensions = (\<lambda>template.
       [\<lparr>Id_ext = [2,5,29,15], Critical = True, Value = []\<rparr>,
        \<lparr>Id_ext = [2,5,29,19], Critical = True, Value = []\<rparr>])\<rparr>"

definition testCert ::
  "8 word \<Rightarrow> string \<Rightarrow> string \<Rightarrow> PublicKey \<Rightarrow> PublicKey \<Rightarrow> string \<Rightarrow> Certificate" where
  "testCert flags subject issuer pub signer ident =
     \<lparr>Subject = subject, Issuer = issuer, PublicKey = pub, SignedBy = signer,
      KeyUsage = (if flags = DelegateFlagLeaf then KeyUsageDigitalSignature
                  else KeyUsageDigitalSignature OR KeyUsageCertSign),
      BasicConstraintsValid = True,
      IsCA = (flags \<noteq> DelegateFlagLeaf),
      Extensions =
        [\<lparr>Id_ext = [2,5,29,15], Critical = True, Value = []\<rparr>,
         \<lparr>Id_ext = [2,5,29,19], Critical = True, Value = []\<rparr>]
        @ (if ident = [] then []
           else [\<lparr>Id_ext = (if flags = DelegateFlagLeaf then OID_Identifier
                             else OID_IdentifierConstraints),
                  Critical = True, Value = ident\<rparr>])
        @ [\<lparr>Id_ext = OID_delegateOnboard, Critical = True, Value = []\<rparr>],
      ExtraExtensions = []\<rparr>"

definition testChain :: "string \<Rightarrow> string \<Rightarrow> string \<Rightarrow> Certificate list" where
  \<comment> \<open>leaf first; the arguments are the identifier strings of root, intermediate and leaf\<close>
  "testChain rootIdent interIdent leafIdent =
     [testCert DelegateFlagLeaf ''Test Leaf'' ''Test Intermediate CA''
        (ECDSA_PublicKey 3) (ECDSA_PublicKey 2) leafIdent,
      testCert DelegateFlagIntermediate ''Test Intermediate CA'' ''Test Root CA''
        (ECDSA_PublicKey 2) (ECDSA_PublicKey 1) interIdent,
      testCert DelegateFlagRoot ''Test Root CA'' ''Test Root CA''
        (ECDSA_PublicKey 1) (ECDSA_PublicKey 1) rootIdent]"

section \<open>Errors, hashes and HMAC verification (hash.go)\<close>

text \<open>
  A Go error is a value; \<open>fmt.Errorf\<close> with the verb \<open>%w\<close> wraps another error, and
  \<open>errors.Is\<close> looks through the wrapping. \<open>Wrapf before e after\<close> is the error that
  \<open>fmt.Errorf\<close> makes of a format with the text \<open>before\<close>, then \<open>%w\<close>, then the text
  \<open>after\<close>, and the error \<open>e\<close>. \<open>ErrCryptoVerifyFailed\<close> is the sentinel the package
  declares for every failed signature or HMAC check.
\<close>

datatype GoError =
    ErrCryptoVerifyFailed
  | Errorf string
  | Wrapf string GoError string

fun errors_Is :: "GoError \<Rightarrow> GoError \<Rightarrow> bool" where
  "errors_Is (Wrapf before e after) target =
     (Wrapf before e after = target \<or> errors_Is e target)"
| "errors_Is e target = (e = target)"

type_synonym bytes = "8 word list"

type_synonym HashAlg = int

definition Sha256Hash :: HashAlg where
  "Sha256Hash = - 16"

definition Sha384Hash :: HashAlg where
  "Sha384Hash = - 43"

definition HmacSha256Hash :: HashAlg where
  "HmacSha256Hash = 5"

definition HmacSha384Hash :: HashAlg where
  "HmacSha384Hash = 6"

record Hash =
  Algorithm :: HashAlg
  Value_hash :: bytes

type_synonym Hmac = Hash

text \<open>
  The interface \<open>KeyedHasher\<close> has the one method \<open>Hmac(HashAlg, any) (Hmac, error)\<close>; an
  implementation is a function that returns the HMAC or an error.
\<close>

type_synonym 'v KeyedHasher = "HashAlg \<Rightarrow> 'v \<Rightarrow> GoError + Hmac"

definition ConstantTimeCompare :: "bytes \<Rightarrow> bytes \<Rightarrow> int" where
  \<comment> \<open>\<open>subtle.ConstantTimeCompare\<close>: 0 when the lengths differ, otherwise the bytes are
      xor-ed pairwise and the results or-ed together\<close>
  "ConstantTimeCompare x y =
     (if length x \<noteq> length y then 0
      else if fold (\<lambda>(a, b) v. v OR (a XOR b)) (zip x y) (0 :: 8 word) = 0 then 1
      else 0)"

definition hmac_Equal :: "bytes \<Rightarrow> bytes \<Rightarrow> bool" where
  \<comment> \<open>\<open>hmac.Equal\<close>\<close>
  "hmac_Equal mac1 mac2 = (ConstantTimeCompare mac1 mac2 = 1)"

definition HmacVerify :: "'v KeyedHasher \<Rightarrow> Hmac \<Rightarrow> 'v \<Rightarrow> GoError option" where
  "HmacVerify dc h1 v =
     (case dc (Algorithm h1) v of
        Inl err \<Rightarrow> Some err
      | Inr h2 \<Rightarrow>
          if \<not> hmac_Equal (Value_hash h1) (Value_hash h2)
          then Some (Wrapf [] ErrCryptoVerifyFailed '': hmac did not match'')
          else None)"

text \<open>
  Two implementations of \<open>KeyedHasher\<close> used as examples: one whose HMAC of a byte string is
  the byte string itself, and one whose computation fails with a given error.
\<close>

definition computingHasher :: "bytes KeyedHasher" where
  "computingHasher alg v = Inr \<lparr>Algorithm = alg, Value_hash = v\<rparr>"

definition failingHasher :: "GoError \<Rightarrow> bytes KeyedHasher" where
  "failingHasher err alg v = Inl err"

section \<open>Signature algorithm selection (siginfo.go)\<close>

text \<open>
  A signing key is read through \<open>key.Public()\<close>: an RSA key by \<open>Size()\<close>, the length of
  its modulus in bytes, an ECDSA key by its curve.
\<close>

datatype Curve = P256 | P384 | P521

datatype SigningKey =
    RSAKey nat
  | ECDSAKey Curve
  | OtherSigningKey

datatype CryptoHash = SHA256 | SHA384

datatype SignerOpts =
    NilOpts
  | HashOpts CryptoHash
  | PSSOptions int CryptoHash

definition PSSSaltLengthEqualsHash :: int where
  "PSSSaltLengthEqualsHash = - 1"

datatype SigError =
    ErrUnsupportedRSAKeySize nat
  | ErrUnsupportedKey

definition signOptsFor :: "SigningKey \<Rightarrow> bool \<Rightarrow> SigError + SignerOpts" where
  "signOptsFor key usePSS =
     (case key of
        RSAKey n \<Rightarrow>
          (if n = 2048 div 8 then
             Inr (if usePSS then PSSOptions PSSSaltLengthEqualsHash SHA256 else HashOpts SHA256)
           else if n = 3072 div 8 then
             Inr (if usePSS then PSSOptions PSSSaltLengthEqualsHash SHA384 else HashOpts SHA384)
           else Inl (ErrUnsupportedRSAKeySize (n * 8)))
      | _ \<Rightarrow> Inr NilOpts)"

type_synonym SignatureAlgorithm = int

definition ES256Alg :: SignatureAlgorithm where
  "ES256Alg = - 7"

definition ES384Alg :: SignatureAlgorithm where
  "ES384Alg = - 35"

definition PS256Alg :: SignatureAlgorithm where
  "PS256Alg = - 37"

definition PS384Alg :: SignatureAlgorithm where
  "PS384Alg = - 38"

definition RS256Alg :: SignatureAlgorithm where
  "RS256Alg = - 257"

definition RS384Alg :: SignatureAlgorithm where
  "RS384Alg = - 258"

definition SignatureAlgorithmFor :: "SigningKey \<Rightarrow> SignerOpts \<Rightarrow> SigError + SignatureAlgorithm" where
  \<comment> \<open>Modelled from the spec: \<open>cose.SignatureAlgorithmFor\<close> is not among the sources. The
      spec fixes the mapping: ECDSA-P-256 to ES256, ECDSA-P-384 to ES384, RSA with SHA-256 to
      RS256 (PS256 when PSS is in use), RSA with SHA-384 to RS384 (PS384 with PSS).\<close>
  "SignatureAlgorithmFor key opts =
     (case key of
        ECDSAKey P256 \<Rightarrow> Inr ES256Alg
      | ECDSAKey P384 \<Rightarrow> Inr ES384Alg
      | RSAKey _ \<Rightarrow>
          (case opts of
             HashOpts SHA256 \<Rightarrow> Inr RS256Alg
           | HashOpts SHA384 \<Rightarrow> Inr RS384Alg
           | PSSOptions _ SHA256 \<Rightarrow> Inr PS256Alg
           | PSSOptions _ SHA384 \<Rightarrow> Inr PS384Alg
           | NilOpts \<Rightarrow> Inl ErrUnsupportedKey)
      | _ \<Rightarrow> Inl ErrUnsupportedKey)"

record sigInfo =
  Type :: SignatureAlgorithm
  Info :: bytes

definition sigInfoFor :: "SigningKey \<Rightarrow> bool \<Rightarrow> SigError + sigInfo" where
  "sigInfoFor key usePSS =
     (case signOptsFor key usePSS of
        Inl err \<Rightarrow> Inl err
      | Inr opts \<Rightarrow>
          (case SignatureAlgorithmFor key opts of
             Inl err \<Rightarrow> Inl err
           | Inr algID \<Rightarrow> Inr \<lparr>Type = algID, Info = []\<rparr>))"

section \<open>The fdo.payload module: messages\<close>

text \<open>
  Modelled from the spec: the \<open>cbor\<close> package is not among the sources. A message body is
  kept as a CBOR data item. Encoding a Go value gives the item of its type; decoding into a
  Go variable succeeds exactly when the item has the type of the variable (a struct is
  read from a map by the names of its \<open>cbor\<close> tags, an absent field keeps its zero value),
  which is the round-trip law \<open>parse(serialize(x)) = x\<close> of the spec. The integers of the
  messages are sizes and counts of type \<open>int64\<close>; they are kept as unbounded integers, a
  Go slice being shorter than \<open>2^63\<close> bytes, so an integer item beyond the range of
  \<open>int64\<close>, which the source cannot decode, is read as it stands.
\<close>

datatype cbor =
    CBool bool
  | CInt int
  | CBytes bytes
  | CText string
  | CMap "(string \<times> cbor) list"

type_synonym KV = "string \<times> cbor"












datatype 'a outcome = Panic | Return 'a

section \<open>The fdo.payload module: device side (payload_device.go)\<close>

text \<open>
  \<open>PayloadHandler\<close> is an interface. An implementation is a record of functions over a
  state of its own; every method returns its results and the next state.
\<close>

record 'h PayloadHandler =
  SupportsMimeType :: "'h \<Rightarrow> string \<Rightarrow> bool"
  BeginPayload ::
    "'h \<Rightarrow> string \<Rightarrow> string \<Rightarrow> int \<Rightarrow> (string \<times> string) list option \<Rightarrow> GoError option \<times> 'h"
  ReceiveChunk :: "'h \<Rightarrow> bytes \<Rightarrow> GoError option \<times> 'h"
  EndPayload :: "'h \<Rightarrow> (bool \<times> string \<times> string \<times> GoError option) \<times> 'h"
  CancelPayload :: "'h \<Rightarrow> GoError option \<times> 'h"

datatype HandlerCall =
    CallSupportsMimeType string
  | CallBeginPayload string string int "(string \<times> string) list option"
  | CallReceiveChunk bytes
  | CallEndPayload
  | CallCancelPayload

text \<open>
  The struct \<open>Payload\<close>; \<open>handlerState\<close> is the state behind the interface value
  \<open>Handler\<close>, and \<open>handlerCalls\<close> records the calls made to it, oldest first.
\<close>

record 'h Payload =
  Handler :: "'h PayloadHandler option"
  handlerState :: 'h
  handlerCalls :: "HandlerCall list"
  Active :: bool
  receiving :: bool
  totalBytes :: int
  expectedSize :: int
  buffer :: bytes



text \<open>
  \<open>respond(key)\<close> gives a writer; encoding a value into it sends the message \<open>key\<close>, or
  fails with the writer's error.
\<close>

type_synonym Responder = "string \<Rightarrow> cbor \<Rightarrow> GoError option"




definition respondWith ::
  "'h Payload \<Rightarrow> Responder \<Rightarrow> string \<Rightarrow> cbor \<Rightarrow> ('h Payload \<times> KV list \<times> GoError option) outcome" where
  \<comment> \<open>\<open>w := respond(key); if err := cbor.NewEncoder(w).Encode(v); err != nil { return err }\<close>
      and then the \<open>return nil\<close> that ends \<open>receive\<close>\<close>
  "respondWith p respond key v =
     (case respond key v of
        Some err \<Rightarrow> Return (p, [], Some err)
      | None \<Rightarrow> Return (p, [(key, v)], None))"



section \<open>The fdo.payload module: owner side (payload_owner.go)\<close>
















section \<open>The exchange of the two modules\<close>









subsection \<open>A handler that stores what it receives\<close>





subsection \<open>Sessions and modules used as examples\<close>





text \<open>
  \<open>handlerCalls\<close> only records what the module has asked of its handler. \<open>withCalls l r\<close> is
  the result \<open>r\<close> of a module whose record started with the calls \<open>l\<close>.
\<close>

fun withCalls :: "HandlerCall list \<Rightarrow> ('h Payload \<times> KV list \<times> GoError option) outcome
                  \<Rightarrow> ('h Payload \<times> KV list \<times> GoError option) outcome" where
  "withCalls l Panic = Panic"
| "withCalls l (Return (p, out, e)) = Return (p\<lparr>handlerCalls := l @ handlerCalls p\<rparr>, out, e)"

section \<open>COSE headers (cose/header.go)\<close>

text \<open>
  The \<open>cbor\<close> package is not among the sources, so the encoder is a parameter: what
  \<open>cbor.Marshal\<close> returns for an \<open>int64\<close>, for a header value, for a byte string, for a map
  given the encodings of its keys and values, and for a struct given the encodings of its
  fields. \<open>MarshalFuncValue\<close> is what it returns for a value of type \<open>func() string\<close>: the
  encoder sees a function, and nothing of the receiver a method value is bound to.
\<close>

record 'v CborCodec =
  MarshalInt64 :: "int \<Rightarrow> GoError + bytes"
  MarshalAny :: "'v \<Rightarrow> GoError + bytes"
  MarshalByteString :: "bytes \<Rightarrow> GoError + bytes"
  MarshalMapOf :: "(bytes \<times> bytes) list \<Rightarrow> GoError + bytes"
  MarshalStructOf :: "bytes list \<Rightarrow> GoError + bytes"
  MarshalFuncValue :: "GoError + bytes"

record Label =
  Int64 :: int
  Str :: string

text \<open>
  A \<open>HeaderMap\<close> is a \<open>map[Label]any\<close>; it is kept as the list of its entries, in the order
  in which the map is ranged over.
\<close>

type_synonym 'v HeaderMap = "(Label \<times> 'v) list"

type_synonym rawHeaderMap = "(Label \<times> bytes) list"

record 'v Header =
  Protected :: "'v HeaderMap"
  Unprotected :: "'v HeaderMap"

definition Label_MarshalCBOR :: "'v CborCodec \<Rightarrow> Label \<Rightarrow> GoError + bytes" where
  \<comment> \<open>the last line of the source is \<open>return cbor.Marshal(l.String)\<close>: the argument is
      the method \<open>String\<close>, not the field \<open>Str\<close>\<close>
  "Label_MarshalCBOR cb l =
     (if Int64 l \<noteq> 0 then MarshalInt64 cb (Int64 l)
      else MarshalFuncValue cb)"

fun newRawHeaderMap :: "'v CborCodec \<Rightarrow> 'v HeaderMap \<Rightarrow> GoError + rawHeaderMap" where
  "newRawHeaderMap cb [] = Inr []"
| "newRawHeaderMap cb ((label, v) # unmarshaled) =
     (case MarshalAny cb v of
        Inl err \<Rightarrow> Inl (Wrapf ''error serializing header value: '' err [])
      | Inr d \<Rightarrow>
          (case newRawHeaderMap cb unmarshaled of
             Inl err \<Rightarrow> Inl err
           | Inr marshaled \<Rightarrow> Inr ((label, d) # marshaled)))"

fun marshalEntries :: "'v CborCodec \<Rightarrow> rawHeaderMap \<Rightarrow> GoError + (bytes \<times> bytes) list" where
  \<comment> \<open>\<open>cbor.Marshal\<close> of a \<open>rawHeaderMap\<close> encodes every key with \<open>Label.MarshalCBOR\<close> and
      copies every value, which is \<open>cbor.RawBytes\<close>\<close>
  "marshalEntries cb [] = Inr []"
| "marshalEntries cb ((label, raw) # m) =
     (case Label_MarshalCBOR cb label of
        Inl err \<Rightarrow> Inl err
      | Inr k \<Rightarrow>
          (case marshalEntries cb m of
             Inl err \<Rightarrow> Inl err
           | Inr kvs \<Rightarrow> Inr ((k, raw) # kvs)))"

definition rawHeaderMap_Marshal :: "'v CborCodec \<Rightarrow> rawHeaderMap \<Rightarrow> GoError + bytes" where
  "rawHeaderMap_Marshal cb m =
     (case marshalEntries cb m of
        Inl err \<Rightarrow> Inl err
      | Inr kvs \<Rightarrow> MarshalMapOf cb kvs)"

definition omitEmpty_MarshalCBOR :: "'v CborCodec \<Rightarrow> rawHeaderMap \<Rightarrow> GoError + bytes" where
  "omitEmpty_MarshalCBOR cb val =
     (case rawHeaderMap_Marshal cb val of
        Inl err \<Rightarrow> Inl err
      | Inr b \<Rightarrow>
          if length b \<noteq> 1 then Inr b
          else if b ! 0 \<in> {0x00, 0x40, 0x60, 0x80, 0xa0} then Inr []
          else Inr b)"

definition Bstr_MarshalCBOR :: "'v CborCodec \<Rightarrow> rawHeaderMap \<Rightarrow> GoError + bytes" where
  \<comment> \<open>Modelled from the spec: \<open>cbor.Bstr\<close> is not among the sources. Its value is
      re-encoded as a CBOR byte string that contains its serialized form.\<close>
  "Bstr_MarshalCBOR cb val =
     (case omitEmpty_MarshalCBOR cb val of
        Inl err \<Rightarrow> Inl err
      | Inr d \<Rightarrow> MarshalByteString cb d)"

definition Header_MarshalCBOR :: "'v CborCodec \<Rightarrow> 'v Header \<Rightarrow> GoError + bytes" where
  "Header_MarshalCBOR cb hdr =
     (case newRawHeaderMap cb (Protected hdr) of
        Inl err \<Rightarrow> Inl err
      | Inr protectedHeader \<Rightarrow>
          (case newRawHeaderMap cb (Unprotected hdr) of
             Inl err \<Rightarrow> Inl err
           | Inr unprotectedHeader \<Rightarrow>
               (case Bstr_MarshalCBOR cb protectedHeader of
                  Inl err \<Rightarrow> Inl err
                | Inr p \<Rightarrow>
                    (case rawHeaderMap_Marshal cb unprotectedHeader of
                       Inl err \<Rightarrow> Inl err
                     | Inr u \<Rightarrow> MarshalStructOf cb [p, u]))))"

definition stringLabelled :: "string \<Rightarrow> 'v \<Rightarrow> 'v Header" where
  \<comment> \<open>the header whose protected map has the one entry \<open>Label{Str: s}: v\<close>\<close>
  "stringLabelled s v = \<lparr>Protected = [(\<lparr>Int64 = 0, Str = s\<rparr>, v)], Unprotected = []\<rparr>"

section \<open>Auxiliary notions for the proofs\<close>

definition unitOf :: "char \<Rightarrow> string" where
  "unitOf c = (if c = CHR ''*'' then ''.*'' else if special c then [backslash, c] else [c])"

definition tokOf :: "char \<Rightarrow> rtoken" where
  "tokOf c = (if c = CHR ''*'' then AnyStar else Lit c)"

fun wildcardMatch :: "string \<Rightarrow> string \<Rightarrow> bool" where
  "wildcardMatch [] t = (t = [])"
| "wildcardMatch (c # p) [] = (c = CHR ''*'' \<and> wildcardMatch p [])"
| "wildcardMatch (c # p) (d # t) =
     (if c = CHR ''*'' then wildcardMatch p (d # t) \<or> (d \<noteq> newline \<and> wildcardMatch (c # p) t)
      else c = d \<and> wildcardMatch p t)"

definition ascii :: "char \<Rightarrow> bool" where
  "ascii c = ((of_char c :: nat) < 0x80)"

definition highRanges :: "byteRange list \<Rightarrow> bool" where
  "highRanges st = (\<forall>r \<in> set st. 0x80 \<le> fst r)"



lemma special_simps:
  "special backslash" "special (CHR ''*'')" "special (CHR ''$'')" "special (CHR ''^'')" "special (CHR ''.'')"
  by (simp_all add: special_def backslash_def)

lemma not_special_ne:
  assumes "\<not> special c"
  shows "c \<noteq> CHR ''*''" "c \<noteq> backslash" "c \<noteq> CHR ''^''" "c \<noteq> CHR ''$''" "c \<noteq> CHR ''.''"
  using assms special_simps by auto

lemma backslash_ne:
  "backslash \<noteq> CHR ''*''" "backslash \<noteq> CHR ''^''" "backslash \<noteq> CHR ''$''"
  "backslash \<noteq> CHR ''.''" "CHR ''*'' \<noteq> backslash" "CHR ''^'' \<noteq> backslash"
  "CHR ''$'' \<noteq> backslash" "CHR ''.'' \<noteq> backslash"
  by (simp_all add: backslash_def)

lemma Replace_Cons:
  "\<not> (a = backslash \<and> xs \<noteq> [] \<and> hd xs = CHR ''*'') \<Longrightarrow>
   ReplaceEscapedStar (a # xs) = a # ReplaceEscapedStar xs"
  by (cases xs) auto

lemma QuoteMeta_hd: "s = [] \<or> hd s \<noteq> CHR ''*'' \<Longrightarrow>
  QuoteMeta p @ s = [] \<or> hd (QuoteMeta p @ s) \<noteq> CHR ''*''"
  by (cases p) (auto simp: special_simps backslash_ne)

lemma Replace_QuoteMeta:
  "s = [] \<or> hd s \<noteq> CHR ''*'' \<Longrightarrow>
   ReplaceEscapedStar (QuoteMeta p @ s) = concat (map unitOf p) @ ReplaceEscapedStar s"
proof (induction p)
  case Nil
  then show ?case by simp
next
  case (Cons c p)
  let ?rest = "QuoteMeta p @ s"
  have hd_rest: "?rest = [] \<or> hd ?rest \<noteq> CHR ''*''"
    using Cons.prems by (rule QuoteMeta_hd)
  show ?case
  proof (cases "special c")
    case True
    show ?thesis
    proof (cases "c = CHR ''*''")
      case True
      then show ?thesis using Cons by (simp add: unitOf_def special_simps)
    next
      case False
      have "ReplaceEscapedStar (backslash # c # ?rest) = backslash # ReplaceEscapedStar (c # ?rest)"
        using False by simp
      also have "ReplaceEscapedStar (c # ?rest) = c # ReplaceEscapedStar ?rest"
        using hd_rest by (intro Replace_Cons) auto
      finally show ?thesis using \<open>special c\<close> False Cons by (simp add: unitOf_def)
    qed
  next
    case False
    then have "c \<noteq> backslash" by (rule not_special_ne)
    then have "ReplaceEscapedStar (c # ?rest) = c # ReplaceEscapedStar ?rest"
      by (intro Replace_Cons) auto
    then show ?thesis using False Cons not_special_ne(1)[OF False] by (simp add: unitOf_def)
  qed
qed

lemma regexPattern_eq: "regexPattern p = CHR ''^'' # concat (map unitOf p) @ ''$''"
proof -
  have "ReplaceEscapedStar (CHR ''^'' # QuoteMeta p @ ''$'') = CHR ''^'' # ReplaceEscapedStar (QuoteMeta p @ ''$'')"
    by (intro Replace_Cons) (simp add: backslash_def)
  then show ?thesis by (simp add: regexPattern_def Replace_QuoteMeta)
qed


lemma parse_units:
  "parseRegexp (concat (map unitOf p) @ ''$'') = Some (map tokOf p @ [EndText])"
proof (induction p)
  case Nil
  then show ?case by simp
next
  case (Cons c p)
  obtain d ds where rest: "concat (map unitOf p) @ ''$'' = d # ds"
    by (cases "concat (map unitOf p) @ ''$''") auto
  show ?case
  proof (cases "special c")
    case True
    then show ?thesis using Cons
      by (auto simp: unitOf_def tokOf_def backslash_ne special_simps)
  next
    case False
    have u: "unitOf c = [c]" and t: "tokOf c = Lit c"
      using False not_special_ne[OF False] by (simp_all add: unitOf_def tokOf_def)
    have "parseRegexp (c # d # ds) = map_option (Cons (Lit c)) (parseRegexp (d # ds))"
      using False not_special_ne[OF False] by simp
    then show ?thesis using Cons.IH rest u t by simp
  qed
qed

lemma parse_regexPattern:
  "parseRegexp (regexPattern p) = Some (BeginText # map tokOf p @ [EndText])"
proof -
  obtain d ds where rest: "concat (map unitOf p) @ ''$'' = d # ds"
    by (cases "concat (map unitOf p) @ ''$''") auto
  have "parseRegexp (CHR ''^'' # d # ds) = map_option (Cons BeginText) (parseRegexp (d # ds))"
    by simp
  then show ?thesis using rest parse_units[of p] by (simp add: regexPattern_eq)
qed

lemma matchHere_tokens:
  "matchHere (map tokOf p @ [EndText]) b t = wildcardMatch p t"
proof (induction p t arbitrary: b rule: wildcardMatch.induct)
  case (1 t)
  then show ?case by simp
next
  case (2 c p)
  then show ?case by (simp add: tokOf_def)
next
  case (3 c p d t)
  then show ?case by (simp add: tokOf_def)
qed

lemma matchAnywhere_BeginText_False: "matchAnywhere (BeginText # ts) False t = False"
  by (induction t) auto

lemma matchAnywhere_anchored:
  "matchAnywhere (BeginText # map tokOf p @ [EndText]) True t = wildcardMatch p t"
  by (cases t) (simp_all add: matchAnywhere_BeginText_False matchHere_tokens)


lemma special_ascii: "special c \<Longrightarrow> ascii c"
  by (auto simp: special_def backslash_def ascii_def)

lemma leadByte_ascii: "ascii c \<Longrightarrow> leadByte c = Some []"
  by (simp add: leadByte_def ascii_def)

lemma leadByte_high: "leadByte c = Some rs \<Longrightarrow> highRanges rs"
  by (auto simp: leadByte_def highRanges_def contRange_def Let_def split: if_splits)

lemma inRange_ascii: "ascii c \<Longrightarrow> 0x80 \<le> fst r \<Longrightarrow> \<not> inRange r c"
  by (simp add: inRange_def ascii_def)

lemma validFrom_ascii_Cons:
  "ascii c \<Longrightarrow> highRanges st \<Longrightarrow> validFrom st (c # xs) = (st = [] \<and> validFrom [] xs)"
  by (cases st) (auto simp: leadByte_ascii inRange_ascii highRanges_def)

lemma unitOf_cases:
  "(ascii c \<and> (\<exists>a. ascii a \<and> unitOf c = [a]) \<or> ascii c \<and> (\<exists>a b. ascii a \<and> ascii b \<and> unitOf c = [a, b]))
   \<or> (\<not> ascii c \<and> unitOf c = [c])"
proof (cases "ascii c")
  case True
  have "ascii (CHR ''.'')" "ascii (CHR ''*'')" "ascii backslash"
    by (simp_all add: ascii_def backslash_def)
  then show ?thesis using True by (auto simp: unitOf_def)
next
  case False
  then have "\<not> special c" using special_ascii by blast
  moreover have "c \<noteq> CHR ''*''" using False by (auto simp: ascii_def)
  ultimately show ?thesis using False by (simp add: unitOf_def)
qed

lemma validFrom_units:
  "highRanges st \<Longrightarrow> validFrom st (concat (map unitOf p) @ ''$'') = validFrom st p"
proof (induction p arbitrary: st)
  case Nil
  have "ascii (CHR ''$'')" by (simp add: ascii_def)
  from validFrom_ascii_Cons[OF this Nil, of "[]"] show ?case
    by (cases st) simp_all
next
  case (Cons c p)
  let ?rest = "concat (map unitOf p) @ ''$''"
  have IH0: "validFrom [] ?rest = validFrom [] p"
    by (rule Cons.IH) (simp add: highRanges_def)
  consider (one) a where "ascii c" "ascii a" "unitOf c = [a]"
    | (two) a b where "ascii c" "ascii a" "ascii b" "unitOf c = [a, b]"
    | (same) "\<not> ascii c" "unitOf c = [c]"
    using unitOf_cases[of c] by blast
  then show ?case
  proof cases
    case one
    then show ?thesis using Cons.prems IH0
      by (simp add: validFrom_ascii_Cons)
  next
    case two
    have "validFrom st (a # b # ?rest) = (st = [] \<and> validFrom [] (b # ?rest))"
      using two Cons.prems by (simp add: validFrom_ascii_Cons)
    also have "validFrom [] (b # ?rest) = validFrom [] ?rest"
      using two by (simp add: leadByte_ascii)
    finally show ?thesis using two Cons.prems IH0
      by (simp add: validFrom_ascii_Cons)
  next
    case same
    show ?thesis
    proof (cases st)
      case Nil
      show ?thesis
      proof (cases "leadByte c")
        case None
        then show ?thesis using same Nil by simp
      next
        case (Some rs)
        then have "highRanges rs" by (rule leadByte_high)
        then show ?thesis using same Nil Some Cons.IH by simp
      qed
    next
      case (Cons r rs)
      then have "highRanges rs" using Cons.prems by (simp add: highRanges_def)
      then show ?thesis using same Cons Cons.IH by simp
    qed
  qed
qed

lemma validUTF8_regexPattern: "validUTF8 (regexPattern p) = validUTF8 p"
proof -
  have "ascii (CHR ''^'')" by (simp add: ascii_def)
  moreover have "highRanges []" by (simp add: highRanges_def)
  ultimately have "validFrom [] (CHR ''^'' # concat (map unitOf p) @ ''$'')
      = validFrom [] (concat (map unitOf p) @ ''$'')"
    using validFrom_ascii_Cons[of "CHR ''^''" "[]"] by blast
  then show ?thesis
    by (simp add: validUTF8_def regexPattern_eq validFrom_units highRanges_def)
qed

lemma MatchString_regexPattern:
  "MatchString (regexPattern p) c =
     (if validUTF8 p then Inr (wildcardMatch p c) else Inl ErrInvalidUTF8)"
  by (simp add: MatchString_def validUTF8_regexPattern parse_regexPattern matchAnywhere_anchored)


subsection \<open>wildcard matching is transitive\<close>

lemma wildcardMatch_Cons_literal:
  "c \<noteq> CHR ''*'' \<Longrightarrow> wildcardMatch (c # p) t = (\<exists>t'. t = c # t' \<and> wildcardMatch p t')"
  by (cases t) auto

lemma wildcardMatch_star_intro:
  "newline \<notin> set w \<Longrightarrow> wildcardMatch p t \<Longrightarrow> wildcardMatch (CHR ''*'' # p) (w @ t)"
proof (induction w)
  case Nil
  then show ?case by (cases t) auto
next
  case (Cons d w)
  then show ?case by auto
qed

lemma wildcardMatch_star_elim:
  "wildcardMatch (CHR ''*'' # p) t \<Longrightarrow>
   \<exists>w t'. t = w @ t' \<and> newline \<notin> set w \<and> wildcardMatch p t'"
proof (induction t)
  case Nil
  then show ?case by simp
next
  case (Cons d t)
  from Cons.prems consider
      (skip) "wildcardMatch p (d # t)"
    | (eat) "d \<noteq> newline" "wildcardMatch (CHR ''*'' # p) t"
    by auto
  then show ?case
  proof cases
    case skip
    then have "d # t = [] @ (d # t) \<and> newline \<notin> set [] \<and> wildcardMatch p (d # t)" by simp
    then show ?thesis by blast
  next
    case eat
    from Cons.IH[OF eat(2)] obtain w t' where
      "t = w @ t'" "newline \<notin> set w" "wildcardMatch p t'" by blast
    with eat(1) have "d # t = (d # w) @ t' \<and> newline \<notin> set (d # w) \<and> wildcardMatch p t'"
      by auto
    then show ?thesis by blast
  qed
qed

lemma wildcardMatch_append_elim:
  "wildcardMatch (p1 @ p2) t \<Longrightarrow>
   \<exists>t1 t2. t = t1 @ t2 \<and> wildcardMatch p1 t1 \<and> wildcardMatch p2 t2"
proof (induction p1 arbitrary: t)
  case Nil
  then have "t = [] @ t \<and> wildcardMatch [] [] \<and> wildcardMatch p2 t" by simp
  then show ?case by blast
next
  case (Cons c p1)
  show ?case
  proof (cases "c = CHR ''*''")
    case True
    with Cons.prems obtain w t' where
      w: "t = w @ t'" "newline \<notin> set w" "wildcardMatch (p1 @ p2) t'"
      using wildcardMatch_star_elim[of "p1 @ p2" t] by auto
    from Cons.IH[OF w(3)] obtain t1 t2 where
      t: "t' = t1 @ t2" "wildcardMatch p1 t1" "wildcardMatch p2 t2" by blast
    have "wildcardMatch (c # p1) (w @ t1)"
      using True w(2) t(2) by (simp add: wildcardMatch_star_intro)
    with w(1) t show ?thesis by (metis append.assoc)
  next
    case False
    with Cons.prems obtain t' where t': "t = c # t'" "wildcardMatch (p1 @ p2) t'"
      using wildcardMatch_Cons_literal[of c "p1 @ p2" t] by auto
    from Cons.IH[OF t'(2)] obtain t1 t2 where
      t: "t' = t1 @ t2" "wildcardMatch p1 t1" "wildcardMatch p2 t2" by blast
    have "wildcardMatch (c # p1) (c # t1)" using False t(2) by simp
    with t'(1) t show ?thesis by (metis append_Cons)
  qed
qed

lemma wildcardMatch_no_newline:
  "newline \<notin> set w \<Longrightarrow> wildcardMatch w w' \<Longrightarrow> newline \<notin> set w'"
proof (induction w arbitrary: w')
  case Nil
  then show ?case by simp
next
  case (Cons c w)
  show ?case
  proof (cases "c = CHR ''*''")
    case True
    with Cons.prems obtain u v where
      "w' = u @ v" "newline \<notin> set u" "wildcardMatch w v"
      using wildcardMatch_star_elim[of w w'] by auto
    with Cons show ?thesis by auto
  next
    case False
    with Cons.prems obtain v where "w' = c # v" "wildcardMatch w v"
      using wildcardMatch_Cons_literal[of c w w'] by auto
    with Cons show ?thesis by auto
  qed
qed

lemma wildcardMatch_trans:
  "wildcardMatch r q \<Longrightarrow> wildcardMatch q l \<Longrightarrow> wildcardMatch r l"
proof (induction r arbitrary: q l)
  case Nil
  then show ?case by simp
next
  case (Cons c r)
  show ?case
  proof (cases "c = CHR ''*''")
    case True
    with Cons.prems(1) obtain w q2 where
      q: "q = w @ q2" "newline \<notin> set w" "wildcardMatch r q2"
      using wildcardMatch_star_elim[of r q] by auto
    from Cons.prems(2) q(1) obtain l1 l2 where
      l: "l = l1 @ l2" "wildcardMatch w l1" "wildcardMatch q2 l2"
      using wildcardMatch_append_elim[of w q2 l] by auto
    have "newline \<notin> set l1" using q(2) l(2) by (rule wildcardMatch_no_newline)
    moreover have "wildcardMatch r l2" using q(3) l(3) by (rule Cons.IH)
    ultimately show ?thesis using True l(1) by (simp add: wildcardMatch_star_intro)
  next
    case False
    with Cons.prems(1) obtain q' where q: "q = c # q'" "wildcardMatch r q'"
      using wildcardMatch_Cons_literal[of c r q] by auto
    with Cons.prems(2) False obtain l' where l: "l = c # l'" "wildcardMatch q' l'"
      using wildcardMatch_Cons_literal[of c q' l] by auto
    have "wildcardMatch r l'" using q(2) l(2) by (rule Cons.IH)
    then show ?thesis using False l(1) by simp
  qed
qed

subsection \<open>The loops of the two predicates\<close>

lemma anyParentMatches_True_iff:
  "anyParentMatches c ps = Inr True \<Longrightarrow> \<exists>p \<in> set ps. validUTF8 p \<and> wildcardMatch p c"
proof (induction ps)
  case Nil
  then show ?case by simp
next
  case (Cons p ps)
  then show ?case
    by (cases "validUTF8 p"; cases "wildcardMatch p c") (auto simp: MatchString_regexPattern)
qed

lemma anyParentMatches_mono:
  "anyParentMatches q rs = Inr True \<Longrightarrow> (\<And>r. wildcardMatch r q \<Longrightarrow> wildcardMatch r l) \<Longrightarrow>
   anyParentMatches l rs = Inr True"
proof (induction rs)
  case Nil
  then show ?case by simp
next
  case (Cons r rs)
  show ?case
  proof (cases "validUTF8 r")
    case False
    with Cons.prems(1) show ?thesis by (simp add: MatchString_regexPattern)
  next
    case True
    show ?thesis
    proof (cases "wildcardMatch r q")
      case True
      then have "wildcardMatch r l" by (rule Cons.prems(2))
      with \<open>validUTF8 r\<close> show ?thesis by (simp add: MatchString_regexPattern)
    next
      case False
      with Cons.prems(1) \<open>validUTF8 r\<close> have "anyParentMatches q rs = Inr True"
        by (simp add: MatchString_regexPattern)
      then have "anyParentMatches l rs = Inr True" using Cons.prems(2) by (rule Cons.IH)
      with \<open>validUTF8 r\<close> show ?thesis by (simp add: MatchString_regexPattern)
    qed
  qed
qed

lemma allChildrenPermitted_iff:
  "allChildrenPermitted cs ps = (\<forall>c \<in> set cs. anyParentMatches c ps = Inr True)"
proof (induction cs)
  case Nil
  then show ?case by simp
next
  case (Cons c cs)
  then show ?case
    by (cases "anyParentMatches c ps") auto
qed

lemma allChildrenPermitted_trans:
  assumes ab: "allChildrenPermitted as bs" and bc: "allChildrenPermitted bs cs"
  shows "allChildrenPermitted as cs"
proof -
  have "anyParentMatches a cs = Inr True" if "a \<in> set as" for a
  proof -
    from ab that have "anyParentMatches a bs = Inr True"
      by (simp add: allChildrenPermitted_iff)
    then obtain b where b: "b \<in> set bs" "wildcardMatch b a"
      using anyParentMatches_True_iff by blast
    from bc b(1) have "anyParentMatches b cs = Inr True"
      by (simp add: allChildrenPermitted_iff)
    moreover have "wildcardMatch r a" if "wildcardMatch r b" for r
      using that b(2) by (rule wildcardMatch_trans)
    ultimately show ?thesis by (rule anyParentMatches_mono)
  qed
  then show ?thesis by (simp add: allChildrenPermitted_iff)
qed

lemma IsPermittedIdentifierRule_trans:
  "IsPermittedIdentifierRule a b \<Longrightarrow> IsPermittedIdentifierRule b c \<Longrightarrow>
   IsPermittedIdentifierRule a c"
  unfolding IsPermittedIdentifierRule_def Let_def by (rule allChildrenPermitted_trans)

lemma removeSpaces_idem: "removeSpaces (removeSpaces s) = removeSpaces s"
  by (simp add: removeSpaces_def)

lemma IsPermittedIdentifierRule_removeSpaces:
  "IsPermittedIdentifierRule (removeSpaces a) b = IsPermittedIdentifierRule a b"
  by (simp add: IsPermittedIdentifierRule_def removeSpaces_idem)

lemma walkChain_Cons_None:
  assumes "walkChain env chain oid i prev (c # rest) = None"
  shows "\<exists>constrs.
     (if i = 0 then GetIdentifier chain = Inr constrs else constrs = getIdentConstraints c)
     \<and> (constrs \<noteq> [] \<and> prev \<noteq> [] \<longrightarrow> IsPermittedIdentifierRule prev constrs)
     \<and> (i \<noteq> 0 \<and> prev = [] \<longrightarrow> constrs = [])
     \<and> (\<forall>f. oid = Some f \<longrightarrow> \<not> certMissingOID c f)
     \<and> walkChain env chain oid (Suc i) constrs rest = None"
proof (cases "i = 0")
  case True
  show ?thesis
  proof (cases "GetIdentifier chain")
    case (Inl e)
    with assms True show ?thesis by simp
  next
    case (Inr s)
    with assms True show ?thesis
      by (cases oid) (auto simp: Let_def split: if_splits)
  qed
next
  case False
  with assms show ?thesis
    by (cases oid) (auto simp: Let_def split: if_splits)
qed

lemma walkChain_oid:
  "walkChain env chain (Some f) i prev cs = None \<Longrightarrow> \<forall>c \<in> set cs. \<not> certMissingOID c f"
proof (induction cs arbitrary: i prev)
  case Nil
  then show ?case by simp
next
  case (Cons c cs)
  from walkChain_Cons_None[OF Cons.prems] obtain constrs where
    "\<not> certMissingOID c f" "walkChain env chain (Some f) (Suc i) constrs cs = None"
    by blast
  with Cons.IH show ?case by auto
qed

lemma walkChain_constraints:
  assumes "walkChain env chain oid i prev cs = None" and "0 < i"
    and "prev \<noteq> [] \<longrightarrow> prev = x \<or> IsPermittedIdentifierRule x prev"
  shows "\<forall>c \<in> set cs. getIdentConstraints c \<noteq> [] \<longrightarrow>
           IsPermittedIdentifierRule x (getIdentConstraints c)"
  using assms
proof (induction cs arbitrary: i prev)
  case Nil
  then show ?case by simp
next
  case (Cons c cs)
  let ?k = "getIdentConstraints c"
  from walkChain_Cons_None[OF Cons.prems(1)] Cons.prems(2) have
    perm: "?k \<noteq> [] \<and> prev \<noteq> [] \<longrightarrow> IsPermittedIdentifierRule prev ?k"
    and named: "prev = [] \<longrightarrow> ?k = []"
    and rest: "walkChain env chain oid (Suc i) ?k cs = None"
    by auto
  have here: "IsPermittedIdentifierRule x ?k" if "?k \<noteq> []"
  proof -
    from that named have "prev \<noteq> []" by blast
    with perm that Cons.prems(3) show ?thesis
      using IsPermittedIdentifierRule_trans by blast
  qed
  then have next_ok: "?k \<noteq> [] \<longrightarrow> ?k = x \<or> IsPermittedIdentifierRule x ?k" by blast
  have pos: "0 < Suc i" by simp
  have "\<forall>c \<in> set cs. getIdentConstraints c \<noteq> [] \<longrightarrow>
           IsPermittedIdentifierRule x (getIdentConstraints c)"
    using rest pos next_ok by (rule Cons.IH)
  with here show ?case by simp
qed

lemma walkChain_leaf:
  assumes "walkChain env chain oid 0 [] chain = None"
  shows "\<forall>c \<in> set (tl chain). getIdentConstraints c \<noteq> [] \<longrightarrow>
           IsPermittedIdentifierRule (GetCertIdentifierStr (hd chain)) (getIdentConstraints c)"
proof (cases chain)
  case Nil
  then show ?thesis by simp
next
  case (Cons c cs)
  from walkChain_Cons_None[of env chain oid 0 "[]" c cs] assms Cons
  have "walkChain env chain oid (Suc 0) (GetCertIdentifierStr c) cs = None"
    by (auto simp: GetIdentifier_def)
  then have "\<forall>c' \<in> set cs. getIdentConstraints c' \<noteq> [] \<longrightarrow>
           IsPermittedIdentifierRule (GetCertIdentifierStr c) (getIdentConstraints c')"
    by (rule walkChain_constraints) simp_all
  with Cons show ?thesis by simp
qed

lemma appendOwnerRoot_prefix:
  "appendOwnerRoot env chain ownerKey oidArray = Inr chain' \<Longrightarrow>
   chain' = chain \<or> (\<exists>r. chain' = chain @ [r])"
  by (auto simp: appendOwnerRoot_def Let_def split: option.splits sum.splits PublicKey.splits)

lemma processDelegateChain_None:
  assumes "processDelegateChain env chain ownerKey oid output namedOwner = None"
  shows "chain \<noteq> [] \<and> (\<exists>chain'.
      appendOwnerRoot env chain ownerKey (case oid of None \<Rightarrow> [] | Some f \<Rightarrow> [f]) = Inr chain'
      \<and> walkChain env chain' oid 0 [] chain' = None
      \<and> (\<forall>name. namedOwner = Some name \<longrightarrow>
            lastValue OID_IdentifierConstraints [] (Extensions (last chain')) \<noteq> [] \<longrightarrow>
            IsPermittedIdentifierRule
              (lastValue OID_IdentifierConstraints [] (Extensions (last chain'))) name))"
  using assms
  by (auto simp: processDelegateChain_def Let_def split: if_splits sum.splits option.splits)

text \<open>
  Claim C2. If \<open>VerifyDelegateChain(C, K, f, nil)\<close> returns \<open>nil\<close>, every certificate of
  \<open>C\<close> carries \<open>f\<close> among its extensions, and the identifier of the leaf, when it declares
  one, is permitted by the constraints of every certificate above it that declares
  constraints. A certificate declares an identifier or constraints when the string read
  from its extension (\<open>GetCertIdentifierStr\<close>, \<open>getIdentConstraints\<close>) is not empty.
\<close>

theorem verified_chain_carries_oid_and_permits_leaf:
  assumes "VerifyDelegateChain env chain ownerKey (Some f) None = None"
  shows "(\<forall>c \<in> set chain. \<not> certMissingOID c f)
     \<and> (GetCertIdentifierStr (hd chain) \<noteq> [] \<longrightarrow>
          (\<forall>c \<in> set (tl chain). getIdentConstraints c \<noteq> [] \<longrightarrow>
             IsPermittedIdentifierRule (GetCertIdentifierStr (hd chain)) (getIdentConstraints c)))"
proof -
  from assms obtain chain' where ne: "chain \<noteq> []"
    and app: "appendOwnerRoot env chain ownerKey [f] = Inr chain'"
    and walk: "walkChain env chain' (Some f) 0 [] chain' = None"
    using processDelegateChain_None[of env chain ownerKey "Some f" False None]
    by (auto simp: VerifyDelegateChain_def)
  from appendOwnerRoot_prefix[OF app] have sub: "set chain \<subseteq> set chain'"
    and hd: "hd chain' = hd chain" and tl: "set (tl chain) \<subseteq> set (tl chain')"
    using ne by auto
  from walkChain_oid[OF walk] sub have "\<forall>c \<in> set chain. \<not> certMissingOID c f" by blast
  moreover from walkChain_leaf[OF walk] hd tl
  have "\<forall>c \<in> set (tl chain). getIdentConstraints c \<noteq> [] \<longrightarrow>
          IsPermittedIdentifierRule (GetCertIdentifierStr (hd chain)) (getIdentConstraints c)"
    by auto
  ultimately show ?thesis by blast
qed

theorem verified_chain_carries_oid_and_permits_leaf_witness:
  "VerifyDelegateChain testEnv (testChain ''DNS:*.dom'' ''DNS:*.sub.dom'' ''DNS:srv.sub.dom'')
     (Some (ECDSA_PublicKey 1)) (Some OID_delegateOnboard) None = None
   \<and> list_all (\<lambda>c. \<not> certMissingOID c OID_delegateOnboard)
        (testChain ''DNS:*.dom'' ''DNS:*.sub.dom'' ''DNS:srv.sub.dom'')
   \<and> GetCertIdentifierStr (hd (testChain ''DNS:*.dom'' ''DNS:*.sub.dom'' ''DNS:srv.sub.dom''))
       = ''DNS:srv.sub.dom''
   \<and> map getIdentConstraints (tl (testChain ''DNS:*.dom'' ''DNS:*.sub.dom'' ''DNS:srv.sub.dom''))
       = [''DNS:*.sub.dom'', ''DNS:*.dom'']
   \<and> list_all (\<lambda>c. IsPermittedIdentifierRule ''DNS:srv.sub.dom'' (getIdentConstraints c))
        (tl (testChain ''DNS:*.dom'' ''DNS:*.sub.dom'' ''DNS:srv.sub.dom''))"
proof -
  let ?chain = "testChain ''DNS:*.dom'' ''DNS:*.sub.dom'' ''DNS:srv.sub.dom''"
  have ok: "VerifyDelegateChain testEnv ?chain (Some (ECDSA_PublicKey 1))
              (Some OID_delegateOnboard) None = None"
    by code_simp
  have leaf: "GetCertIdentifierStr (hd ?chain) = ''DNS:srv.sub.dom''" by code_simp
  have above: "map getIdentConstraints (tl ?chain) = [''DNS:*.sub.dom'', ''DNS:*.dom'']"
    by code_simp
  note main = verified_chain_carries_oid_and_permits_leaf[OF ok]
  from main have carries: "list_all (\<lambda>c. \<not> certMissingOID c OID_delegateOnboard) ?chain"
    by (simp only: list_all_iff) blast
  from main leaf have "\<forall>c \<in> set (tl ?chain). getIdentConstraints c \<noteq> [] \<longrightarrow>
      IsPermittedIdentifierRule ''DNS:srv.sub.dom'' (getIdentConstraints c)"
    by simp
  moreover have "\<forall>c \<in> set (tl ?chain). getIdentConstraints c \<noteq> []"
  proof -
    have "\<forall>k \<in> set (map getIdentConstraints (tl ?chain)). k \<noteq> []"
      unfolding above by simp
    then show ?thesis by simp
  qed
  ultimately have permits:
    "list_all (\<lambda>c. IsPermittedIdentifierRule ''DNS:srv.sub.dom'' (getIdentConstraints c)) (tl ?chain)"
    by (simp only: list_all_iff) blast
  from ok carries leaf above permits show ?thesis by blast
qed

lemma testCert_generated:
  "GenerateDelegate testEnv (PrivateKey (ECDSA_PublicKey 1)) DelegateFlagIntermediate (ECDSA_PublicKey 2)
     ''Test Intermediate CA'' ''Test Root CA'' [OID_delegateOnboard] ''DNS:*.sub.sub.dom''
   = Inr (testCert DelegateFlagIntermediate ''Test Intermediate CA'' ''Test Root CA''
        (ECDSA_PublicKey 2) (ECDSA_PublicKey 1) ''DNS:*.sub.sub.dom'')"
  by code_simp

lemma lastValue_filter:
  "lastValue oid acc xs =
     (case filter (\<lambda>x. Id_ext x = oid) xs of [] \<Rightarrow> acc | y # ys \<Rightarrow> Value (last (y # ys)))"
  by (induction xs arbitrary: acc) (auto split: list.splits)

lemma lastValue_snoc:
  assumes "filter (\<lambda>x. Id_ext x = oid) xs = ys @ [y]"
  shows "lastValue oid acc xs = Value y"
proof -
  obtain z zs where z: "ys @ [y] = z # zs" by (cases "ys @ [y]") auto
  then have "last (z # zs) = y" by (metis last_snoc)
  with z assms show ?thesis by (simp add: lastValue_filter)
qed

lemma firstValue_filter:
  "firstValue oid xs =
     (case filter (\<lambda>x. Id_ext x = oid) xs of [] \<Rightarrow> None | y # ys \<Rightarrow> Some (Value y))"
  by (induction xs) (auto split: list.splits)

lemma GenerateDelegate_root_extensions:
  assumes "GenerateDelegate env key DelegateFlagRoot dk subject issuer perms ident = Inr cert"
  shows "\<exists>t. Extensions cert = LibraryExtensions env t
           @ (if ident \<noteq> [] then
                [\<lparr>Id_ext = OID_IdentifierConstraints, Critical = True, Value = ident\<rparr>]
              else [])
           @ permissionExtensions perms"
proof -
  have flag: "DelegateFlagRoot AND (DelegateFlagIntermediate OR DelegateFlagRoot) \<noteq> 0"
    by (simp add: DelegateFlagRoot_def DelegateFlagIntermediate_def)
  from assms show ?thesis
    unfolding GenerateDelegate_def Let_def CreateAndParse_def
    by (simp only: flag if_True) (auto split: if_splits option.splits)
qed


lemma appendOwnerRoot_Some:
  assumes "appendOwnerRoot env chain (Some k) oidArray = Inr chain'"
  shows "\<exists>key rootOwner. chain' = chain @ [rootOwner] \<and>
     GenerateDelegate env key DelegateFlagRoot k (Issuer (last chain)) (Issuer (last chain))
        oidArray (getIdentConstraints (last chain)) = Inr rootOwner"
  using assms
  by (auto simp: appendOwnerRoot_def Let_def split: option.splits sum.splits PublicKey.splits)

lemma filter_permissionExtensions:
  "oid \<notin> set perms \<Longrightarrow> filter (\<lambda>x. Id_ext x = oid) (permissionExtensions perms) = []"
  by (induction perms) (auto simp: permissionExtensions_def)

text \<open>
  Claim C1, as amended. The check at the end of \<open>processDelegateChain\<close> calls
  \<open>IsPermittedIdentifierRule(rootIdent, *namedOwner)\<close>: the constraints of the root are the
  child, the named owner is the parent. So when the last certificate of the chain carries
  one \<open>IdentifierConstraints\<close> extension, not empty once spaces are removed, verification
  with a named owner \<open>N\<close> succeeds only if every comma-separated term of the root's
  constraints matches a term of \<open>N\<close>; when \<open>N\<close> does not permit the root's constraints,
  verification returns an error. With an owner key the last certificate walked is the
  ephemeral owner root, which copies those constraints and then carries the function OID
  as a further extension; only in that case the function OID must not be the constraints OID
  itself. Without an owner key nothing more is required.
\<close>

theorem root_constraints_permitted_by_named_owner:
  assumes one: "filter (\<lambda>x. Id_ext x = OID_IdentifierConstraints) (Extensions (last chain)) = [e]"
    and nonempty: "removeSpaces (Value e) \<noteq> []"
    and oid: "ownerKey \<noteq> None \<longrightarrow> oid \<noteq> Some OID_IdentifierConstraints"
  shows "(VerifyDelegateChain env chain ownerKey oid (Some N) = None \<longrightarrow>
            IsPermittedIdentifierRule (Value e) N)
         \<and> (\<not> IsPermittedIdentifierRule (Value e) N \<longrightarrow>
            (\<exists>err. VerifyDelegateChain env chain ownerKey oid (Some N) = Some err))"
proof -
  have main: "IsPermittedIdentifierRule (Value e) N"
    if ok: "VerifyDelegateChain env chain ownerKey oid (Some N) = None"
  proof -
    let ?oids = "case oid of None \<Rightarrow> [] | Some f \<Rightarrow> [f]"
    let ?rootIdent = "\<lambda>c. lastValue OID_IdentifierConstraints [] (Extensions c)"
    from ok obtain chain' where
      app: "appendOwnerRoot env chain ownerKey ?oids = Inr chain'"
      and root: "?rootIdent (last chain') \<noteq> [] \<longrightarrow>
                 IsPermittedIdentifierRule (?rootIdent (last chain')) N"
      using processDelegateChain_None[of env chain ownerKey oid False "Some N"]
      by (auto simp: VerifyDelegateChain_def)
    have ne: "Value e \<noteq> []" using nonempty by (auto simp: removeSpaces_def)
    show ?thesis
    proof (cases ownerKey)
      case None
      with app have "chain' = chain" by (simp add: appendOwnerRoot_def)
      moreover have "?rootIdent (last chain) = Value e" by (simp add: lastValue_filter one)
      ultimately show ?thesis using root ne by simp
    next
      case (Some k)
      let ?ident = "getIdentConstraints (last chain)"
      let ?ic = "\<lparr>Id_ext = OID_IdentifierConstraints, Critical = True, Value = ?ident\<rparr>"
      have ident: "?ident = removeSpaces (Value e)"
        by (simp add: getIdentConstraints_def firstValue_filter one)
      from app Some obtain key rootOwner where
        chain': "chain' = chain @ [rootOwner]"
        and gen: "GenerateDelegate env key DelegateFlagRoot k (Issuer (last chain))
                    (Issuer (last chain)) ?oids ?ident = Inr rootOwner"
        using appendOwnerRoot_Some by blast
      from GenerateDelegate_root_extensions[OF gen] ident nonempty obtain t where
        exts: "Extensions rootOwner = LibraryExtensions env t @ [?ic] @ permissionExtensions ?oids"
        by auto
      from oid Some have "OID_IdentifierConstraints \<notin> set ?oids"
        by (auto split: option.splits)
      then have "filter (\<lambda>x. Id_ext x = OID_IdentifierConstraints) (permissionExtensions ?oids) = []"
        by (rule filter_permissionExtensions)
      then have "filter (\<lambda>x. Id_ext x = OID_IdentifierConstraints) (Extensions rootOwner)
          = filter (\<lambda>x. Id_ext x = OID_IdentifierConstraints) (LibraryExtensions env t) @ [?ic]"
        by (simp add: exts)
      then have "?rootIdent rootOwner = Value ?ic"
        by (rule lastValue_snoc)
      then have "?rootIdent rootOwner = ?ident" by simp
      with root chain' ident nonempty
      have "IsPermittedIdentifierRule (removeSpaces (Value e)) N" by simp
      then show ?thesis by (simp add: IsPermittedIdentifierRule_removeSpaces)
    qed
  qed
  show ?thesis
  proof (intro conjI impI)
    assume "VerifyDelegateChain env chain ownerKey oid (Some N) = None"
    then show "IsPermittedIdentifierRule (Value e) N" by (rule main)
  next
    assume "\<not> IsPermittedIdentifierRule (Value e) N"
    with main have "VerifyDelegateChain env chain ownerKey oid (Some N) \<noteq> None" by blast
    then show "\<exists>err. VerifyDelegateChain env chain ownerKey oid (Some N) = Some err" by auto
  qed
qed

theorem root_constraints_permitted_by_named_owner_witness:
  "IsPermittedIdentifierRule ''DNS:*.sub.dom'' ''DNS:*.dom''
   \<and> VerifyDelegateChain testEnv
        (testChain ''DNS:*.sub.dom'' ''DNS:*.sub.sub.dom'' ''DNS:srv.sub.sub.dom'')
        (Some (ECDSA_PublicKey 1)) (Some OID_delegateOnboard) (Some ''DNS:*.dom'') = None
   \<and> \<not> IsPermittedIdentifierRule ''DNS:*.sub.dom'' ''DNS:*.bad''
   \<and> (\<exists>err. VerifyDelegateChain testEnv
        (testChain ''DNS:*.sub.dom'' ''DNS:*.sub.sub.dom'' ''DNS:srv.sub.sub.dom'')
        None (Some OID_delegateOnboard) (Some ''DNS:*.bad'') = Some err)"
proof -
  let ?chain = "testChain ''DNS:*.sub.dom'' ''DNS:*.sub.sub.dom'' ''DNS:srv.sub.sub.dom''"
  let ?e = "\<lparr>Id_ext = OID_IdentifierConstraints, Critical = True, Value = ''DNS:*.sub.dom''\<rparr>"
  have one: "filter (\<lambda>x. Id_ext x = OID_IdentifierConstraints) (Extensions (last ?chain)) = [?e]"
    by code_simp
  have nonempty: "removeSpaces (Value ?e) \<noteq> []" by code_simp
  have oid: "Some (ECDSA_PublicKey 1) \<noteq> None \<longrightarrow>
             Some OID_delegateOnboard \<noteq> Some OID_IdentifierConstraints"
    by code_simp
  have oid': "(None :: PublicKey option) \<noteq> None \<longrightarrow>
             Some OID_delegateOnboard \<noteq> Some OID_IdentifierConstraints"
    by simp
  have ok: "VerifyDelegateChain testEnv ?chain (Some (ECDSA_PublicKey 1))
              (Some OID_delegateOnboard) (Some ''DNS:*.dom'') = None"
    by code_simp
  have bad: "\<not> IsPermittedIdentifierRule (Value ?e) ''DNS:*.bad''" by code_simp
  from root_constraints_permitted_by_named_owner[OF one nonempty oid, of testEnv "''DNS:*.dom''"] ok
  have first: "IsPermittedIdentifierRule ''DNS:*.sub.dom'' ''DNS:*.dom''" by simp
  from root_constraints_permitted_by_named_owner[OF one nonempty oid', of testEnv "''DNS:*.bad''"] bad
  have second: "\<exists>err. VerifyDelegateChain testEnv ?chain None (Some OID_delegateOnboard)
                  (Some ''DNS:*.bad'') = Some err"
    by blast
  from bad have third: "\<not> IsPermittedIdentifierRule ''DNS:*.sub.dom'' ''DNS:*.bad''" by simp
  from first ok third second show ?thesis by blast
qed

text \<open>
  Claim C1 as stated fails on a row of \<open>TestDelegateIdentChains\<close>: the root is constrained
  to \<open>DNS:*.sub.dom\<close>, the named owner is \<open>DNS:*.dom\<close>; verification succeeds, although
  the named owner is not permitted by the root's constraints.
\<close>

theorem named_owner_not_permitted_by_root_counterexample:
  "VerifyDelegateChain testEnv
     (testChain ''DNS:*.sub.dom'' ''DNS:*.sub.sub.dom'' ''DNS:srv.sub.sub.dom'')
     (Some (ECDSA_PublicKey 1)) (Some OID_delegateOnboard) (Some ''DNS:*.dom'') = None
   \<and> lastValue OID_IdentifierConstraints []
        (Extensions (last (testChain ''DNS:*.sub.dom'' ''DNS:*.sub.sub.dom'' ''DNS:srv.sub.sub.dom'')))
       = ''DNS:*.sub.dom''
   \<and> IsPermittedIdentifierRule ''DNS:*.dom'' ''DNS:*.sub.dom'' = False"
  by code_simp

text \<open>
  Claim C9. On an empty chain \<open>processDelegateChain\<close>, and so \<open>VerifyDelegateChain\<close>,
  returns an error whatever the owner key, the OID and the named owner are, and
  \<open>GetIdentifier\<close> returns an error and no identifier.
\<close>

theorem empty_chain_is_an_error:
  "processDelegateChain env [] ownerKey oid output namedOwner = Some ErrEmptyChain
   \<and> VerifyDelegateChain env [] ownerKey oid namedOwner = Some ErrEmptyChain
   \<and> GetIdentifier [] = Inl ErrCannotVerifyEmptyChain"
  by (simp add: processDelegateChain_def VerifyDelegateChain_def GetIdentifier_def)

text \<open>
  Claim C3. The four concrete results of \<open>IsPermittedIdentifierRule\<close>.
\<close>

theorem IsPermittedIdentifierRule_scenarios:
  "IsPermittedIdentifierRule ''DNS:subsub.sub.dom'' ''DNS:*.dom'' = True
   \<and> IsPermittedIdentifierRule ''DNS:*.dom'' ''DNS:*.sub.dom'' = False
   \<and> IsPermittedIdentifierRule ''ID:1234-1111'' ''ID:*-1111'' = True
   \<and> IsPermittedIdentifierRule ''ID:1234-1112'' ''ID:*-1111'' = False"
  by code_simp

section \<open>The laws of \<open>IsPermittedIdentifier\<close>\<close>

lemma wildcardMatch_refl: "wildcardMatch x x"
proof (induction x)
  case Nil
  then show ?case by simp
next
  case (Cons c x)
  show ?case
  proof (cases "c = CHR ''*''")
    case True
    have "newline \<notin> set ''*''" by (simp add: newline_def)
    then have "wildcardMatch (CHR ''*'' # x) (''*'' @ x)"
      using Cons.IH by (rule wildcardMatch_star_intro)
    with True show ?thesis by simp
  next
    case False
    with Cons.IH show ?thesis by simp
  qed
qed

lemma wildcardMatch_append_intro:
  "wildcardMatch p1 t1 \<Longrightarrow> wildcardMatch p2 t2 \<Longrightarrow> wildcardMatch (p1 @ p2) (t1 @ t2)"
proof (induction p1 arbitrary: t1)
  case Nil
  then show ?case by simp
next
  case (Cons c p1)
  show ?case
  proof (cases "c = CHR ''*''")
    case True
    with Cons.prems(1) obtain w t' where
      w: "t1 = w @ t'" "newline \<notin> set w" "wildcardMatch p1 t'"
      using wildcardMatch_star_elim[of p1 t1] by auto
    have "wildcardMatch (p1 @ p2) (t' @ t2)" using w(3) Cons.prems(2) by (rule Cons.IH)
    with w(2) have "wildcardMatch (CHR ''*'' # p1 @ p2) (w @ t' @ t2)"
      by (rule wildcardMatch_star_intro)
    with True w(1) show ?thesis by simp
  next
    case False
    with Cons.prems(1) obtain t' where t': "t1 = c # t'" "wildcardMatch p1 t'"
      using wildcardMatch_Cons_literal[of c p1 t1] by auto
    have "wildcardMatch (p1 @ p2) (t' @ t2)" using t'(2) Cons.prems(2) by (rule Cons.IH)
    with False t'(1) show ?thesis by simp
  qed
qed

lemma Split_nonempty: "Split s sep \<noteq> []"
  by (simp add: Split_def split: prod.splits)

lemma Split_no_separator: "sep \<notin> set s \<Longrightarrow> Split s sep = [s]"
proof -
  have "sep \<notin> set s \<Longrightarrow> splitFields s sep = (s, [])"
    by (induction s) auto
  then show "sep \<notin> set s \<Longrightarrow> Split s sep = [s]" by (simp add: Split_def)
qed

lemma Split_Cons:
  "Split (c # cs) sep =
     (if c = sep then [] # Split cs sep else (c # hd (Split cs sep)) # tl (Split cs sep))"
  by (simp add: Split_def split: prod.splits)

lemma Split_append: "Split (u @ sep # v) sep = Split u sep @ Split v sep"
proof (induction u)
  case Nil
  then show ?case by (simp add: Split_Cons) (simp add: Split_def)
next
  case (Cons c u)
  obtain w ws where u: "Split u sep = w # ws"
    using Split_nonempty[of u sep] by (cases "Split u sep") auto
  with Cons show ?case by (simp add: Split_Cons)
qed

lemma removeSpaces_append: "removeSpaces (a @ b) = removeSpaces a @ removeSpaces b"
  by (simp add: removeSpaces_def)

lemma matchesAnyName_iff:
  "matchesAnyName name (p # ps) =
     (validUTF8 p \<and> (wildcardMatch p name \<or> matchesAnyName name ps))"
  by (simp add: MatchString_regexPattern)

lemma matchesAnyName_append:
  "\<forall>p \<in> set as. validUTF8 p \<Longrightarrow>
   matchesAnyName name (as @ bs) = (matchesAnyName name as \<or> matchesAnyName name bs)"
proof (induction as)
  case Nil
  then show ?case by simp
next
  case (Cons p as)
  then have "matchesAnyName name (as @ bs) = (matchesAnyName name as \<or> matchesAnyName name bs)"
    by simp
  moreover have "validUTF8 p" using Cons.prems by simp
  ultimately show ?case
    using matchesAnyName_iff[of name p "as @ bs"] matchesAnyName_iff[of name p as]
    by (auto simp del: matchesAnyName.simps(2))
qed

lemma validFrom_append:
  "validFrom st a \<Longrightarrow> validFrom st (a @ b) = validFrom [] b"
proof (induction st a rule: validFrom.induct)
  case 1
  then show ?case by simp
next
  case (2 r rs)
  then show ?case by simp
next
  case (3 c cs)
  then show ?case by (cases "leadByte c") auto
next
  case (4 r rs c cs)
  then show ?case by simp
qed

lemma validUTF8_append: "validUTF8 a \<Longrightarrow> validUTF8 b \<Longrightarrow> validUTF8 (a @ b)"
  by (simp add: validUTF8_def validFrom_append)

lemma validFrom_removeSpaces:
  "highRanges st \<Longrightarrow> validFrom st s \<Longrightarrow> validFrom st (removeSpaces s)"
proof (induction s arbitrary: st)
  case Nil
  then show ?case by (simp add: removeSpaces_def)
next
  case (Cons c s)
  have sp: "ascii (CHR '' '')" by (simp add: ascii_def)
  show ?case
  proof (cases "c = CHR '' ''")
    case True
    with Cons.prems validFrom_ascii_Cons[OF sp Cons.prems(1), of s]
    have "st = []" "validFrom [] s" by auto
    with Cons.IH[of "[]"] True show ?thesis by (simp add: removeSpaces_def highRanges_def)
  next
    case False
    then have rs: "removeSpaces (c # s) = c # removeSpaces s" by (simp add: removeSpaces_def)
    show ?thesis
    proof (cases st)
      case Nil
      with Cons.prems obtain rs' where l: "leadByte c = Some rs'" "validFrom rs' s"
        by (cases "leadByte c") auto
      from l(1) have "highRanges rs'" by (rule leadByte_high)
      then have "validFrom rs' (removeSpaces s)" using l(2) by (rule Cons.IH)
      with Nil l(1) rs show ?thesis by simp
    next
      case (Cons r rs')
      with Cons.prems have "highRanges rs'" "inRange r c" "validFrom rs' s"
        by (auto simp: highRanges_def)
      then show ?thesis using Cons.IH[of rs'] Cons rs by simp
    qed
  qed
qed

lemma validUTF8_removeSpaces: "validUTF8 s \<Longrightarrow> validUTF8 (removeSpaces s)"
  unfolding validUTF8_def by (rule validFrom_removeSpaces) (simp add: highRanges_def)

lemma validFrom_splitFields:
  "highRanges st \<Longrightarrow> ascii sep \<Longrightarrow> validFrom st s \<Longrightarrow>
   validFrom st (fst (splitFields s sep)) \<and> (\<forall>p \<in> set (snd (splitFields s sep)). validFrom [] p)"
proof (induction s arbitrary: st)
  case Nil
  then show ?case by simp
next
  case (Cons c s)
  obtain w ws where sf: "splitFields s sep = (w, ws)" by (cases "splitFields s sep") auto
  show ?case
  proof (cases st)
    case Nil
    with Cons.prems obtain rs where l: "leadByte c = Some rs" "validFrom rs s"
      by (cases "leadByte c") auto
    from l(1) have hr: "highRanges rs" by (rule leadByte_high)
    from Cons.IH[OF hr Cons.prems(2) l(2)] sf
    have ih: "validFrom rs w" "\<forall>p \<in> set ws. validFrom [] p" by auto
    show ?thesis
    proof (cases "c = sep")
      case True
      then have "rs = []" using l(1) Cons.prems(2) by (simp add: leadByte_ascii)
      with ih True sf Nil show ?thesis by simp
    next
      case False
      with ih sf Nil l(1) show ?thesis by simp
    qed
  next
    case (Cons r rs)
    with Cons.prems have hr: "highRanges rs" and c: "inRange r c" and v: "validFrom rs s"
      by (auto simp: highRanges_def)
    have "c \<noteq> sep"
      using c Cons.prems(1,2) Cons inRange_ascii[of sep r] by (auto simp: highRanges_def)
    moreover from Cons.IH[OF hr Cons.prems(2) v] sf
    have "validFrom rs w" "\<forall>p \<in> set ws. validFrom [] p" by auto
    ultimately show ?thesis using sf Cons c by simp
  qed
qed

lemma validUTF8_Split:
  assumes "validUTF8 s" and "ascii sep"
  shows "\<forall>p \<in> set (Split s sep). validUTF8 p"
proof -
  have "highRanges []" by (simp add: highRanges_def)
  from validFrom_splitFields[OF this assms(2), of s] assms(1)
  show ?thesis by (cases "splitFields s sep") (auto simp: validUTF8_def Split_def)
qed

text \<open>
  Claim C4, as amended. \<open>IsPermittedIdentifier\<close> splits the permitted names at commas but
  not the name, gives up at the first pattern that does not compile (one that is not valid
  UTF-8), and its \<open>.*\<close> stops at a newline. So: \<open>IsPermittedIdentifier(x, x)\<close> holds for
  every valid UTF-8 string \<open>x\<close> without a comma; \<open>IsPermittedIdentifier(x, "a,b")\<close> is the
  disjunction of \<open>IsPermittedIdentifier(x, "a")\<close> and \<open>IsPermittedIdentifier(x, "b")\<close> whenever
  \<open>a\<close> is valid UTF-8; and a \<open>*\<close> in a term matches every sequence of bytes that holds no
  newline.
\<close>

theorem IsPermittedIdentifier_laws:
  "(\<forall>x. CHR '','' \<notin> set x \<and> validUTF8 x \<longrightarrow> IsPermittedIdentifier x x)
   \<and> (\<forall>x a b. validUTF8 a \<longrightarrow>
         IsPermittedIdentifier x (a @ '','' @ b)
           = (IsPermittedIdentifier x a \<or> IsPermittedIdentifier x b))
   \<and> (\<forall>pre post w. CHR '','' \<notin> set (pre @ post) \<and> validUTF8 pre \<and> validUTF8 post
         \<and> newline \<notin> set w \<longrightarrow>
         IsPermittedIdentifier (pre @ w @ post) (pre @ ''*'' @ post))"
proof (intro conjI allI impI)
  fix x
  assume h: "CHR '','' \<notin> set x \<and> validUTF8 x"
  then have "CHR '','' \<notin> set (removeSpaces x)" by (simp add: removeSpaces_def)
  then have "Split (removeSpaces x) (CHR '','') = [removeSpaces x]" by (rule Split_no_separator)
  moreover have "validUTF8 (removeSpaces x)" using h by (simp add: validUTF8_removeSpaces)
  ultimately show "IsPermittedIdentifier x x"
    by (simp add: IsPermittedIdentifier_def matchesAnyName_iff wildcardMatch_refl
          del: matchesAnyName.simps(2))
next
  fix x a b
  assume "validUTF8 a"
  then have "validUTF8 (removeSpaces a)" by (rule validUTF8_removeSpaces)
  moreover have "ascii (CHR '','')" by (simp add: ascii_def)
  ultimately have valid: "\<forall>p \<in> set (Split (removeSpaces a) (CHR '','')). validUTF8 p"
    by (rule validUTF8_Split)
  have "removeSpaces (a @ '','' @ b) = removeSpaces a @ CHR '','' # removeSpaces b"
    by (simp add: removeSpaces_def)
  then have "Split (removeSpaces (a @ '','' @ b)) (CHR '','')
      = Split (removeSpaces a) (CHR '','') @ Split (removeSpaces b) (CHR '','')"
    by (simp add: Split_append)
  then show "IsPermittedIdentifier x (a @ '','' @ b)
      = (IsPermittedIdentifier x a \<or> IsPermittedIdentifier x b)"
    using valid by (simp add: IsPermittedIdentifier_def Let_def matchesAnyName_append)
next
  fix pre post w
  assume h: "CHR '','' \<notin> set (pre @ post) \<and> validUTF8 pre \<and> validUTF8 post \<and> newline \<notin> set w"
  let ?p = "removeSpaces pre @ ''*'' @ removeSpaces post"
  have "CHR '','' \<notin> set ?p" using h by (auto simp: removeSpaces_def)
  then have split: "Split ?p (CHR '','') = [?p]" by (rule Split_no_separator)
  have "validUTF8 ''*''" by (simp add: validUTF8_def leadByte_def)
  with h have valid: "validUTF8 ?p"
    by (intro validUTF8_append validUTF8_removeSpaces) simp_all
  have "newline \<notin> set (removeSpaces w)" using h by (simp add: removeSpaces_def)
  then have "wildcardMatch (CHR ''*'' # removeSpaces post) (removeSpaces w @ removeSpaces post)"
    using wildcardMatch_refl by (rule wildcardMatch_star_intro)
  with wildcardMatch_refl[of "removeSpaces pre"]
  have "wildcardMatch (removeSpaces pre @ CHR ''*'' # removeSpaces post)
          (removeSpaces pre @ removeSpaces w @ removeSpaces post)"
    by (rule wildcardMatch_append_intro)
  moreover have "removeSpaces (pre @ ''*'' @ post) = ?p"
    and "removeSpaces (pre @ w @ post) = removeSpaces pre @ removeSpaces w @ removeSpaces post"
    by (simp_all add: removeSpaces_def)
  ultimately show "IsPermittedIdentifier (pre @ w @ post) (pre @ ''*'' @ post)"
    using split valid
    by (simp add: IsPermittedIdentifier_def matchesAnyName_iff
          del: matchesAnyName.simps(2))
qed

theorem IsPermittedIdentifier_laws_witness:
  "IsPermittedIdentifier ''DNS:example.com'' ''DNS:example.com''
   \<and> IsPermittedIdentifier ''test'' (''test1'' @ '','' @ ''test'')
       = (IsPermittedIdentifier ''test'' ''test1'' \<or> IsPermittedIdentifier ''test'' ''test'')
   \<and> IsPermittedIdentifier (''DNS:'' @ ''test'' @ ''.example.com'')
        (''DNS:'' @ ''*'' @ ''.example.com'')"
proof -
  have 1: "CHR '','' \<notin> set ''DNS:example.com'' \<and> validUTF8 ''DNS:example.com''"
    by code_simp
  have 2: "validUTF8 ''test1''" by code_simp
  have 3: "CHR '','' \<notin> set (''DNS:'' @ ''.example.com'') \<and> validUTF8 ''DNS:''
     \<and> validUTF8 ''.example.com'' \<and> newline \<notin> set ''test''"
    by code_simp
  from IsPermittedIdentifier_laws 1 2 3 show ?thesis by blast
qed

text \<open>
  Claim C4 as stated fails for a name with a comma: the name \<open>a,b\<close> is matched whole
  against the patterns \<open>a\<close> and \<open>b\<close>.
\<close>

theorem IsPermittedIdentifier_comma_counterexample:
  "IsPermittedIdentifier ''a,b'' ''a,b'' = False"
  by code_simp

section \<open>HMAC verification\<close>

lemma word_xor_eq_0_iff: "(a XOR b = 0) = (a = (b :: 8 word))"
proof
  assume h: "a XOR b = 0"
  have "a = (a XOR b) XOR b" by (simp add: xor.assoc)
  with h show "a = b" by simp
next
  assume "a = b"
  then show "a XOR b = 0" by simp
qed

lemma fold_or_xor_zero:
  "length x = length y \<Longrightarrow>
   (fold (\<lambda>(a, b) v. v OR (a XOR b)) (zip x y) (acc :: 8 word) = 0) = (acc = 0 \<and> x = y)"
proof (induction x arbitrary: y acc)
  case Nil
  then show ?case by simp
next
  case (Cons a x)
  then obtain b y' where y: "y = b # y'" "length x = length y'" by (cases y) auto
  have "(acc OR (a XOR b) = 0) = (acc = 0 \<and> a = b)"
    by (simp add: or_eq_0_iff word_xor_eq_0_iff)
  with Cons.IH[OF y(2)] y(1) show ?case by auto
qed

lemma hmac_Equal_iff: "hmac_Equal x y = (x = y)"
  by (auto simp: hmac_Equal_def ConstantTimeCompare_def fold_or_xor_zero)

text \<open>
  Claim C8, as amended. When the hasher recomputes the HMAC, \<open>HmacVerify\<close> returns \<open>nil\<close>
  exactly when the recomputed bytes equal \<open>h.Value\<close>, and otherwise the error
  \<open>fmt.Errorf("%w: hmac did not match", ErrCryptoVerifyFailed)\<close>, which wraps
  \<open>ErrCryptoVerifyFailed\<close>. When the computation fails, the hasher's own error is returned
  unchanged. So \<open>errors.Is(err, ErrCryptoVerifyFailed)\<close> tells the error of a mismatch from
  the error of a failed computation exactly when the hasher's error does not itself wrap
  \<open>ErrCryptoVerifyFailed\<close>.
\<close>

theorem HmacVerify_result:
  "(dc (Algorithm h) v = Inr h2 \<longrightarrow>
      (HmacVerify dc h v = None) = (Value_hash h2 = Value_hash h)
      \<and> (Value_hash h2 \<noteq> Value_hash h \<longrightarrow>
            HmacVerify dc h v = Some (Wrapf [] ErrCryptoVerifyFailed '': hmac did not match'')
            \<and> (\<exists>e. HmacVerify dc h v = Some e \<and> errors_Is e ErrCryptoVerifyFailed)))
   \<and> (dc (Algorithm h) v = Inl err \<longrightarrow> HmacVerify dc h v = Some err)
   \<and> (dc (Algorithm h) v = Inr h2 \<and> Value_hash h2 \<noteq> Value_hash h
        \<and> dc' (Algorithm h') v' = Inl err \<longrightarrow>
        (\<exists>e e'. HmacVerify dc h v = Some e \<and> HmacVerify dc' h' v' = Some e'
           \<and> (errors_Is e ErrCryptoVerifyFailed \<noteq> errors_Is e' ErrCryptoVerifyFailed)
               = (\<not> errors_Is err ErrCryptoVerifyFailed)))"
  by (auto simp: HmacVerify_def hmac_Equal_iff)

theorem HmacVerify_result_witness:
  "HmacVerify computingHasher \<lparr>Algorithm = HmacSha256Hash, Value_hash = [1, 2, 3]\<rparr> [1, 2, 3] = None
   \<and> HmacVerify computingHasher \<lparr>Algorithm = HmacSha256Hash, Value_hash = [1, 2, 3]\<rparr> [1, 2, 4]
       = Some (Wrapf [] ErrCryptoVerifyFailed '': hmac did not match'')
   \<and> errors_Is (Wrapf [] ErrCryptoVerifyFailed '': hmac did not match'') ErrCryptoVerifyFailed
   \<and> HmacVerify (failingHasher (Errorf ''unsupported hash algorithm''))
        \<lparr>Algorithm = 0, Value_hash = []\<rparr> [1]
       = Some (Errorf ''unsupported hash algorithm'')
   \<and> \<not> errors_Is (Errorf ''unsupported hash algorithm'') ErrCryptoVerifyFailed"
proof -
  let ?h = "\<lparr>Algorithm = HmacSha256Hash, Value_hash = [1, 2, 3]\<rparr>"
  let ?zero = "\<lparr>Algorithm = 0, Value_hash = []\<rparr>"
  let ?err = "Errorf ''unsupported hash algorithm''"
  let ?mismatch = "Wrapf [] ErrCryptoVerifyFailed '': hmac did not match''"
  have same: "computingHasher (Algorithm ?h) [1, 2, 3] = Inr ?h"
    by (simp add: computingHasher_def)
  have other: "computingHasher (Algorithm ?h) [1, 2, 4]
        = Inr \<lparr>Algorithm = HmacSha256Hash, Value_hash = [1, 2, 4]\<rparr>"
    by (simp add: computingHasher_def)
  have failed: "failingHasher ?err (Algorithm ?zero) [1 :: 8 word] = Inl ?err"
    by (simp add: failingHasher_def)
  have ne: "Value_hash \<lparr>Algorithm = HmacSha256Hash, Value_hash = [1, 2, 4]\<rparr> \<noteq> Value_hash ?h"
    by simp
  note equal = HmacVerify_result[of computingHasher ?h "[1, 2, 3]" ?h
      ?err "failingHasher ?err" ?zero "[1]"]
  note differ = HmacVerify_result[of computingHasher ?h "[1, 2, 4]"
      "\<lparr>Algorithm = HmacSha256Hash, Value_hash = [1, 2, 4]\<rparr>"
      ?err "failingHasher ?err" ?zero "[1]"]
  note fails = HmacVerify_result[of "failingHasher ?err" ?zero "[1]" ?h
      ?err "failingHasher ?err" ?zero "[1]"]
  have a: "HmacVerify computingHasher ?h [1, 2, 3] = None"
    using equal same by simp
  have b: "HmacVerify computingHasher ?h [1, 2, 4] = Some ?mismatch"
    using differ other by simp
  have c: "HmacVerify (failingHasher ?err) ?zero [1] = Some ?err"
    using fails failed by simp
  have d: "\<exists>e e'. HmacVerify computingHasher ?h [1, 2, 4] = Some e
        \<and> HmacVerify (failingHasher ?err) ?zero [1] = Some e'
        \<and> (errors_Is e ErrCryptoVerifyFailed \<noteq> errors_Is e' ErrCryptoVerifyFailed)
            = (\<not> errors_Is ?err ErrCryptoVerifyFailed)"
    using differ other failed ne by blast
  from b c d have e: "errors_Is ?mismatch ErrCryptoVerifyFailed
        \<and> \<not> errors_Is ?err ErrCryptoVerifyFailed"
    by simp
  from a b c e show ?thesis by blast
qed

text \<open>
  Claim C8 as stated fails for a hasher whose own error wraps \<open>ErrCryptoVerifyFailed\<close>: the
  computation fails, \<open>HmacVerify\<close> returns that error unchanged, and \<open>errors.Is\<close> answers for
  it as it answers for the error of a mismatch.
\<close>

theorem HmacVerify_failed_computation_counterexample:
  "HmacVerify (failingHasher (Wrapf ''hmac key: '' ErrCryptoVerifyFailed []))
       \<lparr>Algorithm = HmacSha256Hash, Value_hash = [1, 2, 3]\<rparr> [1, 2, 3 :: 8 word]
     = Some (Wrapf ''hmac key: '' ErrCryptoVerifyFailed [])
   \<and> errors_Is (Wrapf ''hmac key: '' ErrCryptoVerifyFailed []) ErrCryptoVerifyFailed
   \<and> HmacVerify computingHasher \<lparr>Algorithm = HmacSha256Hash, Value_hash = [1, 2, 3]\<rparr> [1, 2, 4]
     = Some (Wrapf [] ErrCryptoVerifyFailed '': hmac did not match'')
   \<and> errors_Is (Wrapf [] ErrCryptoVerifyFailed '': hmac did not match'') ErrCryptoVerifyFailed"
  by (simp add: HmacVerify_def failingHasher_def computingHasher_def hmac_Equal_def
        ConstantTimeCompare_def)

section \<open>Signature algorithm selection\<close>

text \<open>
  Claim C7. The signing options and the algorithm are functions of the key and of
  \<open>usePSS\<close> alone. An RSA key of 2048 bits (\<open>Size()\<close> is 256 bytes) selects SHA-256, one of
  3072 bits SHA-384, as PSS options with the salt length equal to the hash exactly when
  \<open>usePSS\<close> is set; every other RSA size is an error. ECDSA keys on P-256 and P-384 select
  ES256 and ES384, whatever \<open>usePSS\<close> is.
\<close>

theorem sigInfoFor_selection:
  "signOptsFor (RSAKey n) usePSS =
     (if n = 256 then
        Inr (if usePSS then PSSOptions PSSSaltLengthEqualsHash SHA256 else HashOpts SHA256)
      else if n = 384 then
        Inr (if usePSS then PSSOptions PSSSaltLengthEqualsHash SHA384 else HashOpts SHA384)
      else Inl (ErrUnsupportedRSAKeySize (n * 8)))
   \<and> sigInfoFor (RSAKey n) usePSS =
     (if n = 256 then Inr \<lparr>Type = (if usePSS then PS256Alg else RS256Alg), Info = []\<rparr>
      else if n = 384 then Inr \<lparr>Type = (if usePSS then PS384Alg else RS384Alg), Info = []\<rparr>
      else Inl (ErrUnsupportedRSAKeySize (n * 8)))
   \<and> sigInfoFor (ECDSAKey P256) usePSS = Inr \<lparr>Type = ES256Alg, Info = []\<rparr>
   \<and> sigInfoFor (ECDSAKey P384) usePSS = Inr \<lparr>Type = ES384Alg, Info = []\<rparr>"
  by (simp add: sigInfoFor_def signOptsFor_def SignatureAlgorithmFor_def)

section \<open>The fdo.payload module: reset on error\<close>


lemma respondWith_log:
  "respondWith (p\<lparr>handlerCalls := l @ handlerCalls p\<rparr>) r k v = withCalls l (respondWith p r k v)"
  by (simp add: respondWith_def split: option.splits)
















section \<open>The fdo.payload module: a transfer delivers the payload\<close>





















section \<open>COSE headers with string labels\<close>

text \<open>
  Claim C5 asks that \<open>UnmarshalCBOR\<close> of \<open>MarshalCBOR(h)\<close> reproduces the maps of every
  header \<open>h\<close>. \<open>Label.MarshalCBOR\<close> hands the method value \<open>l.String\<close> to the encoder, not
  the string \<open>l.Str\<close>; so whatever the encoder is, two headers that differ only in the text
  of a string label marshal to the same result, and no decoder gives back every such header.
\<close>

theorem string_labels_do_not_round_trip:
  "Header_MarshalCBOR cb (stringLabelled s v) = Header_MarshalCBOR cb (stringLabelled t v)
   \<and> \<not> (\<forall>l. decoder (Header_MarshalCBOR cb (stringLabelled l v)) = stringLabelled l v)"
proof
  show same: "Header_MarshalCBOR cb (stringLabelled s v) = Header_MarshalCBOR cb (stringLabelled t v)"
    for s t
    by (simp add: Header_MarshalCBOR_def stringLabelled_def Bstr_MarshalCBOR_def
          omitEmpty_MarshalCBOR_def rawHeaderMap_Marshal_def Label_MarshalCBOR_def
          split: sum.splits)
  show "\<not> (\<forall>l. decoder (Header_MarshalCBOR cb (stringLabelled l v)) = stringLabelled l v)"
  proof
    assume all: "\<forall>l. decoder (Header_MarshalCBOR cb (stringLabelled l v)) = stringLabelled l v"
    then have "stringLabelled ''a'' v = decoder (Header_MarshalCBOR cb (stringLabelled ''a'' v))"
      by simp
    also have "\<dots> = decoder (Header_MarshalCBOR cb (stringLabelled ''b'' v))"
      by (simp only: same[of "''a''" "''b''"])
    also have "\<dots> = stringLabelled ''b'' v" using all by simp
    finally show False by (simp add: stringLabelled_def)
  qed
qed

end
